theory Spec2Isabelle
  imports Complex_Main "HOL-Library.Sublist"
begin

section \<open>Strings\<close>

text \<open>
  A Python \<open>str\<close> is a sequence of Unicode code points, and the topic marker U+FEFF
  does not fit a byte, so a string is modelled as the list of its code points.
  \<open>sub in s\<close> on strings is the contiguous-substring test, \<^const>\<open>sublist\<close>.
\<close>

type_synonym ustr = "nat list"

definition ascii :: "string \<Rightarrow> ustr" where
  "ascii s = map of_char s"

section \<open>publisher.py: composing the description\<close>

record TopicInfo =
  topic_id :: ustr
  name :: ustr
  link :: ustr
  type :: ustr

text \<open>\<open>TOPIC_MARKER\<close> is the one code point U+FEFF.\<close>

definition TOPIC_MARKER :: ustr where
  "TOPIC_MARKER = [65279]"

text \<open>\<open>f"#{topic.name}"\<close>\<close>

definition hash_name :: "TopicInfo \<Rightarrow> ustr" where
  "hash_name topic = ascii ''#'' @ name topic"

text \<open>
  \<open>tag_text = f"{TOPIC_MARKER}#{topic.name}[...]#{TOPIC_MARKER}"\<close>, where the text in
  brackets is the two code points U+8BDD U+9898.
\<close>

definition tag_text :: "TopicInfo \<Rightarrow> ustr" where
  "tag_text topic =
     TOPIC_MARKER @ ascii ''#'' @ name topic @ ascii ''['' @ [35805, 39064] @ ascii '']''
       @ ascii ''#'' @ TOPIC_MARKER"

text \<open>
  The loop of \<open>_build_desc_with_topics\<close>, with \<open>result\<close> as the accumulator:
  \<open>if f"#{topic.name}" not in result: result += f" {tag_text}"\<close>.
\<close>

fun build_desc_loop :: "ustr \<Rightarrow> TopicInfo list \<Rightarrow> ustr" where
  "build_desc_loop result [] = result"
| "build_desc_loop result (topic # topics) =
     build_desc_loop
       (if \<not> sublist (hash_name topic) result then result @ ascii '' '' @ tag_text topic
        else result)
       topics"

definition build_desc_with_topics :: "ustr \<Rightarrow> TopicInfo list \<Rightarrow> ustr" where
  "build_desc_with_topics desc topics = build_desc_loop desc topics"

text \<open>The number of positions of \<open>s\<close> at which \<open>sub\<close> starts.\<close>

fun occurrences :: "'a list \<Rightarrow> 'a list \<Rightarrow> nat" where
  "occurrences sub [] = (if sub = [] then 1 else 0)"
| "occurrences sub (c # cs) = (if prefix sub (c # cs) then 1 else 0) + occurrences sub cs"

definition coffee :: TopicInfo where
  "coffee = \<lparr>topic_id = ascii ''1'', name = ascii ''coffee'', link = [], type = ascii ''topic''\<rparr>"

subsection \<open>Composition only appends\<close>

lemma build_desc_loop_prefix: "prefix result (build_desc_loop result topics)"
proof (induction topics arbitrary: result)
  case Nil
  show ?case by simp
next
  case (Cons topic topics)
  have "prefix result
          (if \<not> sublist (hash_name topic) result then result @ ascii '' '' @ tag_text topic
           else result)"
    by simp
  also have "prefix \<dots> (build_desc_loop \<dots> topics)"
    by (rule Cons.IH)
  finally show ?case by simp
qed

lemma sublist_hash_name_tag_text: "sublist (hash_name topic) (r @ ascii '' '' @ tag_text topic)"
proof -
  have "r @ ascii '' '' @ tag_text topic =
        (r @ ascii '' '' @ TOPIC_MARKER) @ hash_name topic
          @ (ascii ''['' @ [35805, 39064] @ ascii '']'' @ ascii ''#'' @ TOPIC_MARKER)"
    by (simp add: tag_text_def hash_name_def)
  then show ?thesis
    by (simp only: sublist_appendI)
qed

lemma build_desc_loop_mentions:
  "topic \<in> set topics \<Longrightarrow> sublist (hash_name topic) (build_desc_loop result topics)"
proof (induction topics arbitrary: result)
  case Nil
  then show ?case by simp
next
  case (Cons t topics)
  let ?r = "if \<not> sublist (hash_name t) result then result @ ascii '' '' @ tag_text t else result"
  show ?case
  proof (cases "topic = t")
    case True
    have "sublist (hash_name t) ?r"
      by (simp add: sublist_hash_name_tag_text)
    moreover have "sublist ?r (build_desc_loop ?r topics)"
      by (rule prefix_imp_sublist) (rule build_desc_loop_prefix)
    ultimately have "sublist (hash_name t) (build_desc_loop ?r topics)"
      by (rule sublist_order.order.trans)
    with True show ?thesis by simp
  next
    case False
    with Cons.prems have "topic \<in> set topics" by simp
    then have "sublist (hash_name topic) (build_desc_loop ?r topics)"
      by (rule Cons.IH)
    then show ?thesis by simp
  qed
qed

lemma build_desc_loop_fixed:
  "(\<And>topic. topic \<in> set topics \<Longrightarrow> sublist (hash_name topic) result) \<Longrightarrow>
   build_desc_loop result topics = result"
  by (induction topics) simp_all

text \<open>
  C2: composing \<open>"hello"\<close> with the one topic named \<open>"coffee"\<close> gives \<open>"hello "\<close>
  followed by the marker-wrapped coffee tag, a description in which that tag occurs
  exactly once; and for every description and every topic list, composing the composed
  description again with the same topics returns it unchanged.
\<close>

theorem build_desc_coffee_once_and_idempotent:
  "build_desc_with_topics (ascii ''hello'') [coffee] = ascii ''hello '' @ tag_text coffee \<and>
   occurrences (tag_text coffee) (build_desc_with_topics (ascii ''hello'') [coffee]) = 1 \<and>
   build_desc_with_topics (build_desc_with_topics desc topics) topics
     = build_desc_with_topics desc topics"
proof (intro conjI)
  show "build_desc_with_topics (ascii ''hello'') [coffee] = ascii ''hello '' @ tag_text coffee"
    by (simp add: build_desc_with_topics_def coffee_def tag_text_def hash_name_def
        TOPIC_MARKER_def ascii_def sublist_code)
next
  show "occurrences (tag_text coffee) (build_desc_with_topics (ascii ''hello'') [coffee]) = 1"
    by (simp add: build_desc_with_topics_def coffee_def tag_text_def hash_name_def
        TOPIC_MARKER_def ascii_def sublist_code)
next
  show "build_desc_with_topics (build_desc_with_topics desc topics) topics
          = build_desc_with_topics desc topics"
    unfolding build_desc_with_topics_def
    by (rule build_desc_loop_fixed) (rule build_desc_loop_mentions)
qed

section \<open>Values and exceptions\<close>

text \<open>
  The values \<open>json.loads\<close> and \<open>response.json()\<close> produce. A dict is the list of
  its items; \<open>d.get(key, default)\<close> is \<^const>\<open>map_of\<close> with the default for a missing key.
\<close>

datatype json =
    JNull
  | JBool bool
  | JNumber real
  | JStr ustr
  | JList "json list"
  | JDict "(ustr \<times> json) list"

text \<open>
  The exceptions the modelled code raises or lets through, all of them subclasses of
  Python's \<open>Exception\<close>. The source raises three of them as a bare \<open>Exception\<close> with a
  message; the constructor carries what the message interpolates:
  \<^item> \<open>ApiError m\<close>: \<open>Exception(f"API ...: {data.get('msg', response.text)}")\<close> in \<open>_request\<close>;
  \<^item> \<open>InsufficientCredentialError k n\<close>: the \<open>Exception\<close> of \<open>upload_images\<close> for
    \<open>len(file_ids) < len(image_paths)\<close>, with the two lengths;
  \<^item> \<open>InvalidProxyError\<close>: the \<open>Exception\<close> of \<open>get_proxy\<close> for a proxy that is not valid.
  \<open>HTTPStatusError\<close> is what httpx's \<open>raise_for_status\<close> raises, \<open>TransportError\<close> what an
  httpx call raises when no response arrives, \<open>ProviderError\<close> whatever the proxy provider
  raises, and \<open>RetryError e\<close> what tenacity raises when the last allowed attempt
  raised \<open>e\<close>.
\<close>

datatype exn =
    ValueError
  | TypeError
  | AttributeError
  | IndexError
  | KeyError
  | OSError
  | ProcessLookupError
  | PermissionError
  | TimeoutExpired
  | JSONDecodeError
  | UnicodeDecodeError
  | UnicodeEncodeError
  | RecursionError
  | TransportError
  | HTTPStatusError int
  | ApiError json
  | InsufficientCredentialError nat nat
  | InvalidProxyError
  | ProviderError
  | RetryError exn

section \<open>The retry decorator\<close>

text \<open>
  \<open>@retry(stop=stop_after_attempt(3), wait=wait_fixed(1))\<close> of tenacity, with its
  defaults (retry on any \<open>Exception\<close>, \<open>reraise=False\<close>): the decorated body runs again
  after each exception, on the state the failed attempt left, until it returns or the
  attempt budget is spent; then \<open>RetryError\<close> wraps the last exception. The waits
  between attempts are not modelled. \<open>retry_loop n\<close> allows \<open>n\<close> attempts after the
  current one.
\<close>

fun retry_loop :: "nat \<Rightarrow> ('s \<Rightarrow> (exn + 'a) \<times> 's) \<Rightarrow> 's \<Rightarrow> (exn + 'a) \<times> 's" where
  "retry_loop 0 body s =
     (case body s of
        (Inr v, s') \<Rightarrow> (Inr v, s')
      | (Inl e, s') \<Rightarrow> (Inl (RetryError e), s'))"
| "retry_loop (Suc n) body s =
     (case body s of
        (Inr v, s') \<Rightarrow> (Inr v, s')
      | (Inl e, s') \<Rightarrow> retry_loop n body s')"

definition stop_after_attempt :: "nat \<Rightarrow> ('s \<Rightarrow> (exn + 'a) \<times> 's) \<Rightarrow> 's \<Rightarrow> (exn + 'a) \<times> 's" where
  "stop_after_attempt k body s = retry_loop (k - 1) body s"

section \<open>publisher.py: the signed request\<close>

text \<open>
  What \<open>_request\<close> reads of an httpx response: the status, the \<open>content-type\<close> header
  (\<open>None\<close> when the header is absent), the text of the body, and what \<open>response.json()\<close>
  gives for it: the parsed value, or the exception it raises.
\<close>

record response =
  status_code :: int
  content_type :: "ustr option"
  response_text :: ustr
  json_value :: "exn + json"

datatype http_outcome = Responds response | NoResponse

text \<open>
  The network: \<open>http k\<close> is what happens to the request sent after \<open>k\<close> earlier ones,
  \<open>sent\<close> the method and URL of every request sent so far, in order.
\<close>

record http_world =
  http :: "nat \<Rightarrow> http_outcome"
  sent :: "(ustr \<times> ustr) list"

text \<open>What \<open>_request\<close> returns: the parsed body, or the response itself.\<close>

datatype request_result = Data json | Raw response

text \<open>\<open>response.raise_for_status()\<close>: httpx raises unless the status is 2xx.\<close>

definition raise_for_status :: "response \<Rightarrow> exn + unit" where
  "raise_for_status r =
     (if 200 \<le> status_code r \<and> status_code r \<le> 299 then Inr ()
      else Inl (HTTPStatusError (status_code r)))"

text \<open>\<open>isinstance(data, dict) and data.get("success") is False\<close>\<close>

fun success_is_False :: "json \<Rightarrow> bool" where
  "success_is_False (JDict d) = (map_of d (ascii ''success'') = Some (JBool False))"
| "success_is_False _ = False"

text \<open>\<open>data.get('msg', response.text)\<close>, for a dict \<open>data\<close>\<close>

fun msg_or_text :: "json \<Rightarrow> ustr \<Rightarrow> json" where
  "msg_or_text (JDict d) t = (case map_of d (ascii ''msg'') of Some m \<Rightarrow> m | None \<Rightarrow> JStr t)"
| "msg_or_text _ t = JStr t"

text \<open>The body of \<open>_request\<close>: one attempt.\<close>

definition request_attempt ::
  "ustr \<Rightarrow> ustr \<Rightarrow> 'z http_world_scheme
     \<Rightarrow> (exn + request_result) \<times> 'z http_world_scheme" where
  "request_attempt method url w =
     (let w' = w\<lparr>sent := sent w @ [(method, url)]\<rparr> in
      case http w (length (sent w)) of
        NoResponse \<Rightarrow> (Inl TransportError, w')
      | Responds r \<Rightarrow>
          (case raise_for_status r of
             Inl e \<Rightarrow> (Inl e, w')
           | Inr _ \<Rightarrow>
               (let ct = (case content_type r of Some c \<Rightarrow> c | None \<Rightarrow> []) in
                if sublist (ascii ''application/json'') ct then
                  (case json_value r of
                     Inl e \<Rightarrow> (Inl e, w')
                   | Inr data \<Rightarrow>
                       if success_is_False data
                       then (Inl (ApiError (msg_or_text data (response_text r))), w')
                       else (Inr (Data data), w'))
                else (Inr (Raw r), w'))))"

text \<open>\<open>_request\<close> as decorated.\<close>

definition request ::
  "ustr \<Rightarrow> ustr \<Rightarrow> 'z http_world_scheme
     \<Rightarrow> (exn + request_result) \<times> 'z http_world_scheme" where
  "request method url w = stop_after_attempt 3 (request_attempt method url) w"

text \<open>Three responses to try the classification on, and the networks that give them.\<close>

definition r_api :: response where
  \<open>r_api =
     \<lparr>status_code = 200,
      content_type = Some (ascii ''application/json; charset=utf-8''),
      response_text = ascii ''{"success": false, "msg": "bad"}'',
      json_value =
        Inr (JDict [(ascii ''success'', JBool False), (ascii ''msg'', JStr (ascii ''bad''))])\<rparr>\<close>

definition r_plain :: response where
  "r_plain = r_api\<lparr>content_type := Some (ascii ''text/plain'')\<rparr>"

definition r_503 :: response where
  "r_503 = r_api\<lparr>status_code := 503\<rparr>"

definition always :: "response \<Rightarrow> http_world" where
  "always r = \<lparr>http = (\<lambda>k. Responds r), sent = []\<rparr>"

subsection \<open>One attempt\<close>

lemma request_attempt_status:
  "http w (length (sent w)) = Responds r \<Longrightarrow>
   \<not> (200 \<le> status_code r \<and> status_code r \<le> 299) \<Longrightarrow>
   request_attempt method url w =
     (Inl (HTTPStatusError (status_code r)), w\<lparr>sent := sent w @ [(method, url)]\<rparr>)"
  by (auto simp: request_attempt_def raise_for_status_def)

lemma request_attempt_api:
  "http w (length (sent w)) = Responds r \<Longrightarrow>
   200 \<le> status_code r \<Longrightarrow> status_code r \<le> 299 \<Longrightarrow>
   content_type r = Some ct \<Longrightarrow> sublist (ascii ''application/json'') ct \<Longrightarrow>
   json_value r = Inr data \<Longrightarrow> success_is_False data \<Longrightarrow>
   request_attempt method url w =
     (Inl (ApiError (msg_or_text data (response_text r))),
      w\<lparr>sent := sent w @ [(method, url)]\<rparr>)"
  by (simp add: request_attempt_def raise_for_status_def)

lemma request_attempt_not_json:
  "http w (length (sent w)) = Responds r \<Longrightarrow>
   200 \<le> status_code r \<Longrightarrow> status_code r \<le> 299 \<Longrightarrow>
   \<not> sublist (ascii ''application/json'') (case content_type r of Some c \<Rightarrow> c | None \<Rightarrow> []) \<Longrightarrow>
   request_attempt method url w = (Inr (Raw r), w\<lparr>sent := sent w @ [(method, url)]\<rparr>)"
  by (simp add: request_attempt_def raise_for_status_def)

subsection \<open>Three attempts\<close>

lemma stop_after_3_returns:
  "body s = (Inr v, s1) \<Longrightarrow> stop_after_attempt 3 body s = (Inr v, s1)"
  by (simp add: stop_after_attempt_def numeral_2_eq_2)

lemma stop_after_3_second:
  "body s = (Inl e1, s1) \<Longrightarrow> body s1 = (Inr v, s2) \<Longrightarrow>
   stop_after_attempt 3 body s = (Inr v, s2)"
  by (simp add: stop_after_attempt_def numeral_2_eq_2)

lemma stop_after_3_third:
  "body s = (Inl e1, s1) \<Longrightarrow> body s1 = (Inl e2, s2) \<Longrightarrow> body s2 = (Inr v, s3) \<Longrightarrow>
   stop_after_attempt 3 body s = (Inr v, s3)"
  by (simp add: stop_after_attempt_def numeral_2_eq_2)

lemma stop_after_3_fails:
  "body s = (Inl e1, s1) \<Longrightarrow> body s1 = (Inl e2, s2) \<Longrightarrow> body s2 = (Inl e3, s3) \<Longrightarrow>
   stop_after_attempt 3 body s = (Inl (RetryError e3), s3)"
  by (simp add: stop_after_attempt_def numeral_2_eq_2)

text \<open>
  C3, as the code has it. In one attempt of \<open>_request\<close> whose request is answered by the
  response \<open>r\<close>: a status outside 2xx raises \<open>HTTPStatusError\<close>; a 2xx response whose
  \<open>content-type\<close> header contains \<open>application/json\<close> and whose body parses to a dict with
  \<open>success\<close> false raises the API error carrying the body's \<open>msg\<close> (the response text
  when there is none); a 2xx response whose \<open>content-type\<close> does not contain
  \<open>application/json\<close> is returned as it is, its body unread. A call of \<open>_request\<close> returns
  what its first attempt returns, and when three attempts in a row raise it raises
  \<open>RetryError\<close> around the third exception.
\<close>

theorem request_classifies_response:
  assumes "http w (length (sent w)) = Responds r"
  shows
    "(\<not> (200 \<le> status_code r \<and> status_code r \<le> 299) \<longrightarrow>
        fst (request_attempt method url w) = Inl (HTTPStatusError (status_code r))) \<and>
     (200 \<le> status_code r \<and> status_code r \<le> 299 \<and> content_type r = Some ct \<and>
      sublist (ascii ''application/json'') ct \<and> json_value r = Inr data \<and>
      success_is_False data \<longrightarrow>
        fst (request_attempt method url w)
          = Inl (ApiError (msg_or_text data (response_text r)))) \<and>
     (200 \<le> status_code r \<and> status_code r \<le> 299 \<and>
      \<not> sublist (ascii ''application/json'')
          (case content_type r of Some c \<Rightarrow> c | None \<Rightarrow> []) \<longrightarrow>
        fst (request_attempt method url w) = Inr (Raw r)) \<and>
     (request_attempt method url w = (Inr v, w1) \<longrightarrow> request method url w = (Inr v, w1)) \<and>
     (request_attempt method url w = (Inl e1, w1) \<and>
      request_attempt method url w1 = (Inl e2, w2) \<and>
      request_attempt method url w2 = (Inl e3, w3) \<longrightarrow>
        request method url w = (Inl (RetryError e3), w3))"
proof (intro conjI impI)
  assume "\<not> (200 \<le> status_code r \<and> status_code r \<le> 299)"
  with assms show "fst (request_attempt method url w) = Inl (HTTPStatusError (status_code r))"
    by (simp add: request_attempt_status)
next
  assume "200 \<le> status_code r \<and> status_code r \<le> 299 \<and> content_type r = Some ct \<and>
      sublist (ascii ''application/json'') ct \<and> json_value r = Inr data \<and>
      success_is_False data"
  with assms show "fst (request_attempt method url w)
          = Inl (ApiError (msg_or_text data (response_text r)))"
    by (simp add: request_attempt_api)
next
  assume "200 \<le> status_code r \<and> status_code r \<le> 299 \<and>
      \<not> sublist (ascii ''application/json'')
          (case content_type r of Some c \<Rightarrow> c | None \<Rightarrow> [])"
  with assms show "fst (request_attempt method url w) = Inr (Raw r)"
    by (simp add: request_attempt_not_json)
next
  assume "request_attempt method url w = (Inr v, w1)"
  then show "request method url w = (Inr v, w1)"
    unfolding request_def by (rule stop_after_3_returns)
next
  assume "request_attempt method url w = (Inl e1, w1) \<and>
      request_attempt method url w1 = (Inl e2, w2) \<and>
      request_attempt method url w2 = (Inl e3, w3)"
  then show "request method url w = (Inl (RetryError e3), w3)"
    unfolding request_def by (blast intro: stop_after_3_fails)
qed

theorem request_classifies_response_witness:
  "fst (request_attempt (ascii ''GET'') (ascii ''/u'') (always r_503))
     = Inl (HTTPStatusError 503) \<and>
   fst (request_attempt (ascii ''GET'') (ascii ''/u'') (always r_api))
     = Inl (ApiError (JStr (ascii ''bad''))) \<and>
   fst (request_attempt (ascii ''GET'') (ascii ''/u'') (always r_plain)) = Inr (Raw r_plain) \<and>
   fst (request (ascii ''GET'') (ascii ''/u'') (always r_plain)) = Inr (Raw r_plain) \<and>
   fst (request (ascii ''GET'') (ascii ''/u'') (always r_api))
     = Inl (RetryError (ApiError (JStr (ascii ''bad''))))"
proof -
  let ?m = "ascii ''GET''" and ?u = "ascii ''/u''"
  let ?ct = "ascii ''application/json; charset=utf-8''"
  let ?d = "JDict [(ascii ''success'', JBool False), (ascii ''msg'', JStr (ascii ''bad''))]"
  have json: "sublist (ascii ''application/json'') ?ct"
    by (simp add: ascii_def sublist_code)
  have plain: "\<not> sublist (ascii ''application/json'') (ascii ''text/plain'')"
    by (simp add: ascii_def sublist_code)
  have a: "fst (request_attempt ?m ?u (always r_503)) = Inl (HTTPStatusError 503)"
    using request_classifies_response [of "always r_503" r_503 ?m ?u]
    by (simp add: always_def r_503_def r_api_def)
  have b: "fst (request_attempt ?m ?u (always r_api)) = Inl (ApiError (JStr (ascii ''bad'')))"
    using request_classifies_response [of "always r_api" r_api ?m ?u ?ct ?d] json
    by (simp add: always_def r_api_def) (simp add: ascii_def)
  have c: "fst (request_attempt ?m ?u (always r_plain)) = Inr (Raw r_plain)"
    using request_classifies_response [of "always r_plain" r_plain ?m ?u] plain
    by (simp add: always_def r_plain_def r_api_def)
  have d: "fst (request ?m ?u (always r_plain)) = Inr (Raw r_plain)"
    using request_classifies_response
      [of "always r_plain" r_plain ?m ?u _ _ "Raw r_plain"
          "(always r_plain)\<lparr>sent := [(?m, ?u)]\<rparr>"] plain
    by (simp add: always_def r_plain_def r_api_def request_attempt_def raise_for_status_def)
  let ?w1 = "(always r_api)\<lparr>sent := [(?m, ?u)]\<rparr>"
  let ?w2 = "(always r_api)\<lparr>sent := [(?m, ?u), (?m, ?u)]\<rparr>"
  let ?w3 = "(always r_api)\<lparr>sent := [(?m, ?u), (?m, ?u), (?m, ?u)]\<rparr>"
  let ?e = "ApiError (JStr (ascii ''bad''))"
  have ct: "content_type r_api = Some ?ct" and sc: "status_code r_api = 200"
    and jv: "json_value r_api = Inr ?d" and tx: "msg_or_text ?d t = JStr (ascii ''bad'')" for t
    by (simp_all add: r_api_def) (simp add: ascii_def)
  have sf: "success_is_False ?d"
    by simp
  have s1: "request_attempt ?m ?u (always r_api) = (Inl ?e, ?w1)"
    using request_attempt_api [of "always r_api" r_api ?ct ?d ?m ?u] json ct sc jv sf tx
    by (simp add: always_def)
  have s2: "request_attempt ?m ?u ?w1 = (Inl ?e, ?w2)"
    using request_attempt_api [of ?w1 r_api ?ct ?d ?m ?u] json ct sc jv sf tx
    by (simp add: always_def)
  have s3: "request_attempt ?m ?u ?w2 = (Inl ?e, ?w3)"
    using request_attempt_api [of ?w2 r_api ?ct ?d ?m ?u] json ct sc jv sf tx
    by (simp add: always_def)
  have e: "fst (request ?m ?u (always r_api)) = Inl (RetryError ?e)"
    using request_classifies_response
      [of "always r_api" r_api ?m ?u _ _ _ ?w1 ?e ?e ?w2 ?e ?w3]
      s1 s2 s3
    by (simp add: always_def)
  from a b c d e show ?thesis
    by (intro conjI)
qed

text \<open>
  The claim as written fails where the server answers with status 200 and the JSON
  body \<open>{"success": false, "msg": "bad"}\<close> under a \<open>content-type\<close> that is not
  \<open>application/json\<close>: the call returns the response, and raises nothing.
\<close>

theorem request_success_false_returned:
  "status_code r_plain = 200 \<and>
   json_value r_plain
     = Inr (JDict [(ascii ''success'', JBool False), (ascii ''msg'', JStr (ascii ''bad''))]) \<and>
   fst (request (ascii ''POST'') (ascii ''/u'') (always r_plain)) = Inr (Raw r_plain)"
  by (simp add: request_def stop_after_attempt_def numeral_2_eq_2 request_attempt_def
      raise_for_status_def always_def r_plain_def r_api_def ascii_def sublist_code)

section \<open>proxy_ip_pool.py\<close>

text \<open>
  \<open>IpInfoModel\<close> comes from \<open>types.py\<close>. The pool does nothing with an endpoint but
  compare it with \<open>==\<close> (in \<open>list.remove\<close>) and hand it to the probe, so the type of an
  endpoint is the parameter \<open>'p\<close>.

  The world of the pool: \<open>provider k n\<close> is what the \<open>k\<close>-th call of
  \<open>ip_provider.get_proxy(n)\<close> gives, a list of endpoints or an exception; \<open>draw k\<close>
  is the \<open>k\<close>-th random number \<open>random.choice\<close> draws; \<open>probe k p\<close> is what the \<open>k\<close>-th
  \<open>GET\<close> of \<open>_is_valid_proxy\<close> through the endpoint \<open>p\<close> gives, a status or an exception.
  \<open>loads\<close>, \<open>draws\<close> and \<open>probes\<close> count the calls made so far.
\<close>

datatype probe_outcome = Status int | ProbeRaises

record 'p proxy_world =
  provider :: "nat \<Rightarrow> int \<Rightarrow> exn + 'p list"
  loads :: nat
  draw :: "nat \<Rightarrow> nat"
  draws :: nat
  probe :: "nat \<Rightarrow> 'p \<Rightarrow> probe_outcome"
  probes :: nat

record 'p ProxyIpPool =
  ip_pool_count :: int
  enable_validate_ip :: bool
  proxy_list :: "'p list"
  current_proxy :: "'p option"

type_synonym 'p pool_state = "'p ProxyIpPool \<times> 'p proxy_world"

text \<open>\<open>self.proxy_list = await self.ip_provider.get_proxy(self.ip_pool_count)\<close>\<close>

definition load_proxies :: "'p pool_state \<Rightarrow> (exn + unit) \<times> 'p pool_state" where
  "load_proxies st =
     (case st of (pool, w) \<Rightarrow>
        (let w' = w\<lparr>loads := Suc (loads w)\<rparr> in
         case provider w (loads w) (ip_pool_count pool) of
           Inl e \<Rightarrow> (Inl e, (pool, w'))
         | Inr ps \<Rightarrow> (Inr (), (pool\<lparr>proxy_list := ps\<rparr>, w'))))"

text \<open>\<open>self.proxy_list = []; await self.load_proxies()\<close>\<close>

definition reload_proxies :: "'p pool_state \<Rightarrow> (exn + unit) \<times> 'p pool_state" where
  "reload_proxies st = (case st of (pool, w) \<Rightarrow> load_proxies (pool\<lparr>proxy_list := []\<rparr>, w))"

text \<open>
  \<open>random.choice(seq)\<close>: \<open>IndexError\<close> on an empty sequence, else the element at a
  random index below \<open>len(seq)\<close>.
\<close>

definition random_choice :: "'p list \<Rightarrow> 'p proxy_world \<Rightarrow> (exn + 'p) \<times> 'p proxy_world" where
  "random_choice xs w =
     (if xs = [] then (Inl IndexError, w)
      else (Inr (xs ! (draw w (draws w) mod length xs)), w\<lparr>draws := Suc (draws w)\<rparr>))"

text \<open>
  \<open>_is_valid_proxy\<close>: \<open>response.status_code == 200\<close>, and an exception of the \<open>GET\<close> is
  logged and raised again.
\<close>

definition is_valid_proxy :: "'p \<Rightarrow> 'p proxy_world \<Rightarrow> (exn + bool) \<times> 'p proxy_world" where
  "is_valid_proxy proxy w =
     (let w' = w\<lparr>probes := Suc (probes w)\<rparr> in
      case probe w (probes w) proxy of
        ProbeRaises \<Rightarrow> (Inl TransportError, w')
      | Status c \<Rightarrow> (Inr (c = 200), w'))"

text \<open>
  The body of \<open>get_proxy\<close>, one attempt. \<open>list.remove(x)\<close> removes the first element
  equal to \<open>x\<close>, which is \<^const>\<open>remove1\<close>.
\<close>

definition get_proxy_body :: "'p pool_state \<Rightarrow> (exn + 'p) \<times> 'p pool_state" where
  "get_proxy_body st =
     (case (if proxy_list (fst st) = [] then reload_proxies st else (Inr (), st)) of
        (Inl e, st1) \<Rightarrow> (Inl e, st1)
      | (Inr _, (pool, w)) \<Rightarrow>
          (case random_choice (proxy_list pool) w of
             (Inl e, w1) \<Rightarrow> (Inl e, (pool, w1))
           | (Inr proxy, w1) \<Rightarrow>
               (let pool1 = pool\<lparr>proxy_list := remove1 proxy (proxy_list pool)\<rparr> in
                if enable_validate_ip pool1 then
                  (case is_valid_proxy proxy w1 of
                     (Inl e, w2) \<Rightarrow> (Inl e, (pool1, w2))
                   | (Inr valid, w2) \<Rightarrow>
                       if \<not> valid then (Inl InvalidProxyError, (pool1, w2))
                       else (Inr proxy, (pool1\<lparr>current_proxy := Some proxy\<rparr>, w2)))
                else (Inr proxy, (pool1\<lparr>current_proxy := Some proxy\<rparr>, w1)))))"

text \<open>\<open>get_proxy\<close> as decorated with \<open>@retry(stop=stop_after_attempt(3), wait=wait_fixed(1))\<close>.\<close>

definition get_proxy :: "'p pool_state \<Rightarrow> (exn + 'p) \<times> 'p pool_state" where
  "get_proxy st = stop_after_attempt 3 get_proxy_body st"

text \<open>\<open>n\<close> calls of \<open>get_proxy\<close> one after the other, with what each gave.\<close>

fun get_proxy_calls :: "nat \<Rightarrow> 'p pool_state \<Rightarrow> (exn + 'p) list \<times> 'p pool_state" where
  "get_proxy_calls 0 st = ([], st)"
| "get_proxy_calls (Suc n) st =
     (case get_proxy st of (r, st1) \<Rightarrow>
        (case get_proxy_calls n st1 of (rs, st2) \<Rightarrow> (r # rs, st2)))"

text \<open>
  \<open>create_ip_pool\<close>: a pool with an empty list, then \<open>load_proxies\<close>. (The provider is
  part of the world here, so the lookup of the configured provider is left out.)
\<close>

definition create_ip_pool ::
  "int \<Rightarrow> bool \<Rightarrow> 'p proxy_world \<Rightarrow> (exn + unit) \<times> 'p pool_state" where
  "create_ip_pool count validate w =
     load_proxies
       (\<lparr>ip_pool_count = count, enable_validate_ip = validate, proxy_list = [],
         current_proxy = None\<rparr>, w)"

text \<open>
  No endpoint occurs twice in the pool, nor in any list the provider gives.
\<close>

definition loads_distinct :: "'p pool_state \<Rightarrow> bool" where
  "loads_distinct st \<longleftrightarrow>
     distinct (proxy_list (fst st)) \<and> (\<forall>k n ps. provider (snd st) k n = Inr ps \<longrightarrow> distinct ps)"

text \<open>
  The provider has been called at least as often at \<open>b\<close> as at \<open>a\<close>, and if exactly
  as often, the pool at \<open>b\<close> holds only endpoints of the pool at \<open>a\<close>.
\<close>

definition same_load :: "'p pool_state \<Rightarrow> 'p pool_state \<Rightarrow> bool" where
  "same_load a b \<longleftrightarrow>
     loads (snd a) \<le> loads (snd b) \<and>
     (loads (snd b) = loads (snd a) \<longrightarrow> set (proxy_list (fst b)) \<subseteq> set (proxy_list (fst a)))"

text \<open>Worlds and pools to run the code on.\<close>

definition w_dup :: "string proxy_world" where
  "w_dup = \<lparr>provider = (\<lambda>k n. Inr [''10.0.0.1'', ''10.0.0.1'']), loads = 0,
            draw = (\<lambda>k. 0), draws = 0, probe = (\<lambda>k p. Status 200), probes = 0\<rparr>"

definition w_abc :: "string proxy_world" where
  "w_abc = \<lparr>provider = (\<lambda>k n. Inr [''10.0.0.1'', ''10.0.0.2'', ''10.0.0.3'']), loads = 0,
            draw = (\<lambda>k. k), draws = 0, probe = (\<lambda>k p. Status 200), probes = 0\<rparr>"

definition st_dup :: "string pool_state" where
  "st_dup = snd (create_ip_pool 2 False w_dup)"

definition st_abc :: "string pool_state" where
  "st_abc = snd (create_ip_pool 3 False w_abc)"

definition w_bad_first :: "string proxy_world" where
  "w_bad_first =
     \<lparr>provider = (\<lambda>k n. Inr [''10.0.0.1'', ''10.0.0.2'']), loads = 0,
      draw = (\<lambda>k. 0), draws = 0,
      probe = (\<lambda>k p. if p = ''10.0.0.1'' then Status 503 else Status 200), probes = 0\<rparr>"

definition st_bad_first :: "string pool_state" where
  "st_bad_first = snd (create_ip_pool 2 True w_bad_first)"

definition w_empty :: "string proxy_world" where
  "w_empty = \<lparr>provider = (\<lambda>k n. Inr []), loads = 0, draw = (\<lambda>k. 0), draws = 0,
              probe = (\<lambda>k p. Status 200), probes = 0\<rparr>"

definition st_empty :: "string pool_state" where
  "st_empty = snd (create_ip_pool 2 False w_empty)"

subsection \<open>One attempt\<close>

lemmas pool_defs = get_proxy_body_def reload_proxies_def load_proxies_def random_choice_def
  is_valid_proxy_def Let_def

lemma get_proxy_body_loads:
  "get_proxy_body st = (r, st') \<Longrightarrow>
   provider (snd st') = provider (snd st) \<and> loads (snd st) \<le> loads (snd st')"
  by (auto simp: pool_defs split: prod.splits sum.splits if_splits probe_outcome.splits)

lemma get_proxy_body_same_load:
  "get_proxy_body st = (r, st') \<Longrightarrow> loads (snd st') = loads (snd st) \<Longrightarrow>
   set (proxy_list (fst st')) \<subseteq> set (proxy_list (fst st)) \<and>
   (\<forall>p. r = Inr p \<longrightarrow> p \<in> set (proxy_list (fst st)))"
  by (auto simp: pool_defs split: prod.splits sum.splits if_splits probe_outcome.splits dest: set_remove1_subset [THEN subsetD])

lemma get_proxy_body_distinct:
  "loads_distinct st \<Longrightarrow> get_proxy_body st = (r, st') \<Longrightarrow> loads_distinct st'"
  unfolding loads_distinct_def
  by (auto simp: pool_defs split: prod.splits sum.splits if_splits probe_outcome.splits)

lemma get_proxy_body_removed:
  "loads_distinct st \<Longrightarrow> get_proxy_body st = (Inr p, st') \<Longrightarrow> p \<notin> set (proxy_list (fst st'))"
  unfolding loads_distinct_def
  by (auto simp: pool_defs split: prod.splits sum.splits if_splits probe_outcome.splits)

lemma get_proxy_body_plain:
  assumes "\<not> enable_validate_ip pool" and "proxy_list pool \<noteq> []"
    and "proxy = proxy_list pool ! (draw w (draws w) mod length (proxy_list pool))"
  shows "get_proxy_body (pool, w) =
           (Inr proxy,
            (pool\<lparr>proxy_list := remove1 proxy (proxy_list pool), current_proxy := Some proxy\<rparr>,
             w\<lparr>draws := Suc (draws w)\<rparr>))"
  using assms by (simp add: get_proxy_body_def random_choice_def)

lemma get_proxy_body_probed:
  assumes "enable_validate_ip pool" and "proxy_list pool \<noteq> []"
    and "proxy = proxy_list pool ! (draw w (draws w) mod length (proxy_list pool))"
    and "w1 = w\<lparr>draws := Suc (draws w), probes := Suc (probes w)\<rparr>"
    and "pool1 = pool\<lparr>proxy_list := remove1 proxy (proxy_list pool)\<rparr>"
  shows "get_proxy_body (pool, w) =
           (case probe w (probes w) proxy of
              ProbeRaises \<Rightarrow> (Inl TransportError, (pool1, w1))
            | Status c \<Rightarrow>
                if c = 200 then (Inr proxy, (pool1\<lparr>current_proxy := Some proxy\<rparr>, w1))
                else (Inl InvalidProxyError, (pool1, w1)))"
  using assms
  by (simp add: get_proxy_body_def random_choice_def is_valid_proxy_def split: probe_outcome.splits)

lemma get_proxy_body_empty:
  assumes "proxy_list pool = []" and "provider w (loads w) (ip_pool_count pool) = Inr []"
  shows "get_proxy_body (pool, w) = (Inl IndexError, (pool, w\<lparr>loads := Suc (loads w)\<rparr>))"
  using assms
  by (simp add: get_proxy_body_def reload_proxies_def load_proxies_def random_choice_def)

lemma same_load_body: "get_proxy_body s = (r, s') \<Longrightarrow> same_load s s'"
  unfolding same_load_def
  using get_proxy_body_loads get_proxy_body_same_load by blast

lemma same_load_trans: "same_load a b \<Longrightarrow> same_load b c \<Longrightarrow> same_load a c"
  unfolding same_load_def by fastforce

lemma same_load_refl: "same_load a a"
  unfolding same_load_def by simp

subsection \<open>What every attempt keeps, the retried call keeps\<close>

lemma retry_loop_rel:
  assumes run: "retry_loop n body s = (r, s')"
    and body: "\<And>s r s'. body s = (r, s') \<Longrightarrow> R s s'"
    and trans: "\<And>a b c. R a b \<Longrightarrow> R b c \<Longrightarrow> R a c"
  shows "R s s'"
  using run
proof (induction n arbitrary: s)
  case 0
  then show ?case by (auto split: prod.splits sum.splits dest: body)
next
  case (Suc n)
  then show ?case by (auto split: prod.splits sum.splits dest: body intro: trans)
qed

lemma retry_loop_Inr:
  assumes run: "retry_loop n body s = (Inr v, s')"
    and body: "\<And>s r s'. body s = (r, s') \<Longrightarrow> R s s'"
    and trans: "\<And>a b c. R a b \<Longrightarrow> R b c \<Longrightarrow> R a c"
    and refl: "\<And>a. R a a"
  shows "\<exists>s0. R s s0 \<and> body s0 = (Inr v, s')"
  using run
proof (induction n arbitrary: s)
  case 0
  then show ?case by (auto split: prod.splits sum.splits intro: refl)
next
  case (Suc n)
  show ?case
  proof (cases "body s")
    case (Pair r s1)
    show ?thesis
    proof (cases r)
      case (Inr v')
      with Pair Suc.prems have "body s = (Inr v, s')" by simp
      then show ?thesis using refl by blast
    next
      case (Inl e)
      with Pair Suc.prems have "retry_loop n body s1 = (Inr v, s')" by simp
      then obtain s0 where "R s1 s0" "body s0 = (Inr v, s')" using Suc.IH by blast
      moreover have "R s s1" using Pair by (rule body)
      ultimately show ?thesis using trans by blast
    qed
  qed
qed

lemma get_proxy_loads:
  assumes "get_proxy st = (r, st')"
  shows "provider (snd st') = provider (snd st) \<and> loads (snd st) \<le> loads (snd st')"
proof -
  from assms have run: "retry_loop 2 get_proxy_body st = (r, st')"
    by (simp add: get_proxy_def stop_after_attempt_def)
  show ?thesis
    by (rule retry_loop_rel [OF run]) (auto dest: get_proxy_body_loads)
qed

lemma get_proxy_calls_loads:
  "get_proxy_calls n st = (rs, st') \<Longrightarrow> loads (snd st) \<le> loads (snd st')"
proof (induction n arbitrary: st rs st')
  case 0
  then show ?case by simp
next
  case (Suc n)
  obtain r st1 where g: "get_proxy st = (r, st1)" by (cases "get_proxy st")
  obtain rs1 st2 where c: "get_proxy_calls n st1 = (rs1, st2)" by (cases "get_proxy_calls n st1")
  from Suc.prems g c have "st' = st2" by simp
  moreover from g have "loads (snd st) \<le> loads (snd st1)" by (simp add: get_proxy_loads)
  moreover from c have "loads (snd st1) \<le> loads (snd st2)" by (rule Suc.IH)
  ultimately show ?case by simp
qed

lemma get_proxy_same_load:
  assumes "get_proxy st = (r, st')" and "loads (snd st') = loads (snd st)"
  shows "set (proxy_list (fst st')) \<subseteq> set (proxy_list (fst st)) \<and>
         (\<forall>p. r = Inr p \<longrightarrow> p \<in> set (proxy_list (fst st)))"
proof -
  from assms(1) have run: "retry_loop 2 get_proxy_body st = (r, st')"
    by (simp add: get_proxy_def stop_after_attempt_def)
  have "same_load st st'"
    by (rule retry_loop_rel [OF run]) (auto intro: same_load_body same_load_trans)
  with assms(2) have sub: "set (proxy_list (fst st')) \<subseteq> set (proxy_list (fst st))"
    by (simp add: same_load_def)
  have "p \<in> set (proxy_list (fst st))" if "r = Inr p" for p
  proof -
    from run that have run': "retry_loop 2 get_proxy_body st = (Inr p, st')"
      by simp
    have "\<exists>s0. same_load st s0 \<and> get_proxy_body s0 = (Inr p, st')"
      by (rule retry_loop_Inr [OF run'])
        (auto intro: same_load_body same_load_trans same_load_refl)
    then obtain s0 where s0: "same_load st s0" "get_proxy_body s0 = (Inr p, st')"
      by blast
    from s0(2) have "loads (snd s0) \<le> loads (snd st')" by (simp add: get_proxy_body_loads)
    with s0(1) assms(2) have eq: "loads (snd s0) = loads (snd st)" by (simp add: same_load_def)
    with s0(1) have "set (proxy_list (fst s0)) \<subseteq> set (proxy_list (fst st))"
      by (simp add: same_load_def)
    moreover from get_proxy_body_same_load [OF s0(2)] eq assms(2)
    have "p \<in> set (proxy_list (fst s0))"
      by simp
    ultimately show ?thesis by blast
  qed
  with sub show ?thesis by blast
qed

lemma get_proxy_removed:
  assumes "loads_distinct st" and "get_proxy st = (Inr p, st')"
  shows "p \<notin> set (proxy_list (fst st'))"
proof -
  from assms(2) have run: "retry_loop 2 get_proxy_body st = (Inr p, st')"
    by (simp add: get_proxy_def stop_after_attempt_def)
  have "\<exists>s0. (loads_distinct st \<longrightarrow> loads_distinct s0) \<and> get_proxy_body s0 = (Inr p, st')"
    by (rule retry_loop_Inr [OF run]) (auto intro: get_proxy_body_distinct)
  with assms(1) obtain s0 where "loads_distinct s0" "get_proxy_body s0 = (Inr p, st')"
    by blast
  then show ?thesis by (rule get_proxy_body_removed)
qed

lemma get_proxy_calls_never:
  "p \<notin> set (proxy_list (fst st)) \<Longrightarrow> get_proxy_calls n st = (rs, st') \<Longrightarrow>
   loads (snd st') = loads (snd st) \<Longrightarrow> Inr p \<notin> set rs"
proof (induction n arbitrary: st rs st')
  case 0
  then show ?case by simp
next
  case (Suc n)
  obtain r st1 where g: "get_proxy st = (r, st1)" by (cases "get_proxy st")
  obtain rs1 st2 where c: "get_proxy_calls n st1 = (rs1, st2)" by (cases "get_proxy_calls n st1")
  from Suc.prems(2) g c have rs: "rs = r # rs1" and st2: "st' = st2" by simp_all
  from g have "loads (snd st) \<le> loads (snd st1)" by (simp add: get_proxy_loads)
  moreover from c have "loads (snd st1) \<le> loads (snd st2)" by (rule get_proxy_calls_loads)
  ultimately have l1: "loads (snd st1) = loads (snd st)" and l2: "loads (snd st2) = loads (snd st1)"
    using Suc.prems(3) st2 by simp_all
  from get_proxy_same_load [OF g l1] Suc.prems(1)
  have "p \<notin> set (proxy_list (fst st1))" and "r \<noteq> Inr p" by blast+
  moreover from this(1) c l2 have "Inr p \<notin> set rs1" by (rule Suc.IH)
  ultimately show ?case using rs by simp
qed

lemma get_proxy_empty_retry:
  assumes "proxy_list pool = []"
    and "\<forall>k. provider w k (ip_pool_count pool) = Inr []"
  shows "get_proxy (pool, w) = (Inl (RetryError IndexError), (pool, w\<lparr>loads := loads w + 3\<rparr>))"
proof -
  let ?w1 = "w\<lparr>loads := Suc (loads w)\<rparr>"
  let ?w2 = "w\<lparr>loads := Suc (Suc (loads w))\<rparr>"
  let ?w3 = "w\<lparr>loads := Suc (Suc (Suc (loads w)))\<rparr>"
  from assms have a1: "get_proxy_body (pool, w) = (Inl IndexError, (pool, ?w1))"
    by (simp add: get_proxy_body_empty)
  from assms have "get_proxy_body (pool, ?w1) = (Inl IndexError, (pool, ?w1\<lparr>loads := Suc (loads ?w1)\<rparr>))"
    by (intro get_proxy_body_empty) simp_all
  then have a2: "get_proxy_body (pool, ?w1) = (Inl IndexError, (pool, ?w2))"
    by simp
  from assms have "get_proxy_body (pool, ?w2) = (Inl IndexError, (pool, ?w2\<lparr>loads := Suc (loads ?w2)\<rparr>))"
    by (intro get_proxy_body_empty) simp_all
  then have a3: "get_proxy_body (pool, ?w2) = (Inl IndexError, (pool, ?w3))"
    by simp
  have "get_proxy (pool, w) = (Inl (RetryError IndexError), (pool, ?w3))"
    unfolding get_proxy_def using a1 a2 a3 by (rule stop_after_3_fails)
  also have "?w3 = w\<lparr>loads := loads w + 3\<rparr>"
    by simp
  finally show ?thesis .
qed

subsection \<open>The pools above, loaded\<close>

lemmas run_defs = get_proxy_def stop_after_attempt_def numeral_2_eq_2 get_proxy_body_def
  random_choice_def is_valid_proxy_def

lemma st_dup_eq:
  "st_dup = (\<lparr>ip_pool_count = 2, enable_validate_ip = False,
              proxy_list = [''10.0.0.1'', ''10.0.0.1''], current_proxy = None\<rparr>,
            w_dup\<lparr>loads := 1\<rparr>)"
  by (simp add: st_dup_def create_ip_pool_def load_proxies_def w_dup_def)

lemma st_abc_eq:
  "st_abc = (\<lparr>ip_pool_count = 3, enable_validate_ip = False,
              proxy_list = [''10.0.0.1'', ''10.0.0.2'', ''10.0.0.3''], current_proxy = None\<rparr>,
            w_abc\<lparr>loads := 1\<rparr>)"
  by (simp add: st_abc_def create_ip_pool_def load_proxies_def w_abc_def)

lemma st_bad_first_eq:
  "st_bad_first = (\<lparr>ip_pool_count = 2, enable_validate_ip = True,
              proxy_list = [''10.0.0.1'', ''10.0.0.2''], current_proxy = None\<rparr>,
            w_bad_first\<lparr>loads := 1\<rparr>)"
  by (simp add: st_bad_first_def create_ip_pool_def load_proxies_def w_bad_first_def)

lemma st_empty_eq:
  "st_empty = (\<lparr>ip_pool_count = 2, enable_validate_ip = False, proxy_list = [],
                current_proxy = None\<rparr>, w_empty\<lparr>loads := 1\<rparr>)"
  by (simp add: st_empty_def create_ip_pool_def load_proxies_def w_empty_def)

subsection \<open>Claims on the pool\<close>

text \<open>
  C4, for pools without duplicates. When no endpoint occurs twice in the pool or in a
  list the provider gives, an endpoint that \<open>get_proxy\<close> returns is no longer in the pool
  after the call, and however many calls of \<open>get_proxy\<close> follow, none of them returns it
  as long as the provider has not been called again.
\<close>

theorem get_proxy_unique_until_reload:
  assumes "loads_distinct st0" and "get_proxy st0 = (Inr p, st1)"
    and "get_proxy_calls n st1 = (rs, st2)" and "loads (snd st2) = loads (snd st1)"
  shows "p \<notin> set (proxy_list (fst st1)) \<and> Inr p \<notin> set rs"
proof
  show "p \<notin> set (proxy_list (fst st1))"
    using assms(1,2) by (rule get_proxy_removed)
  then show "Inr p \<notin> set rs"
    using assms(3,4) by (rule get_proxy_calls_never)
qed

theorem get_proxy_unique_until_reload_witness:
  "''10.0.0.1'' \<notin> set (proxy_list (fst (snd (get_proxy st_abc)))) \<and>
   Inr ''10.0.0.1'' \<notin> set (fst (get_proxy_calls 2 (snd (get_proxy st_abc))))"
proof -
  let ?st1 = "snd (get_proxy st_abc)"
  have d: "loads_distinct st_abc"
    by (simp add: loads_distinct_def st_abc_eq w_abc_def)
  have g: "get_proxy st_abc = (Inr ''10.0.0.1'', ?st1)"
    by (simp add: st_abc_eq w_abc_def run_defs)
  have c: "get_proxy_calls 2 ?st1
             = (fst (get_proxy_calls 2 ?st1), snd (get_proxy_calls 2 ?st1))"
    by simp
  have l: "loads (snd (snd (get_proxy_calls 2 ?st1))) = loads (snd ?st1)"
    by (simp add: st_abc_eq w_abc_def run_defs)
  from get_proxy_unique_until_reload [OF d g c l] show ?thesis .
qed

text \<open>
  The claim as written fails for a pool that holds an endpoint twice: \<open>list.remove\<close>
  takes out one occurrence, the endpoint is still in the pool after it was issued, and
  the next call issues it again without any call of the provider in between.
\<close>

theorem get_proxy_duplicate_reissued:
  "fst (get_proxy st_dup) = Inr ''10.0.0.1'' \<and>
   ''10.0.0.1'' \<in> set (proxy_list (fst (snd (get_proxy st_dup)))) \<and>
   fst (get_proxy (snd (get_proxy st_dup))) = Inr ''10.0.0.1'' \<and>
   loads (snd (snd (get_proxy (snd (get_proxy st_dup))))) = loads (snd (snd (get_proxy st_dup)))"
  by (simp add: st_dup_eq w_dup_def run_defs)

text \<open>
  C5, as the code has it. One attempt with validation enabled selects one endpoint,
  removes it from the pool and probes it; a probe status other than 200 raises the
  invalid-proxy error, an exception of the probe is raised again, and in both cases the
  attempt selects nothing else. The retry is part of \<open>get_proxy\<close> itself: after an attempt
  that raised, the same call runs the body again on the pool the attempt left, up to
  three attempts in all, returns what the first successful attempt selects, and raises
  \<open>RetryError\<close> around the third exception when all three raise.
\<close>

theorem get_proxy_retries_inside:
  assumes "enable_validate_ip pool" and "proxy_list pool \<noteq> []"
    and "proxy = proxy_list pool ! (draw w (draws w) mod length (proxy_list pool))"
    and "st1 = (pool\<lparr>proxy_list := remove1 proxy (proxy_list pool)\<rparr>,
                w\<lparr>draws := Suc (draws w), probes := Suc (probes w)\<rparr>)"
  shows
    "(probe w (probes w) proxy = Status c \<and> c \<noteq> 200 \<longrightarrow>
        get_proxy_body (pool, w) = (Inl InvalidProxyError, st1)) \<and>
     (probe w (probes w) proxy = ProbeRaises \<longrightarrow>
        get_proxy_body (pool, w) = (Inl TransportError, st1)) \<and>
     (get_proxy_body (pool, w) = (Inl e1, s1) \<and> get_proxy_body s1 = (Inr p, s2) \<longrightarrow>
        get_proxy (pool, w) = (Inr p, s2)) \<and>
     (get_proxy_body (pool, w) = (Inl e1, s1) \<and> get_proxy_body s1 = (Inl e2, s2) \<and>
      get_proxy_body s2 = (Inr p, s3) \<longrightarrow>
        get_proxy (pool, w) = (Inr p, s3)) \<and>
     (get_proxy_body (pool, w) = (Inl e1, s1) \<and> get_proxy_body s1 = (Inl e2, s2) \<and>
      get_proxy_body s2 = (Inl e3, s3) \<longrightarrow>
        get_proxy (pool, w) = (Inl (RetryError e3), s3))"
proof (intro conjI impI)
  assume "probe w (probes w) proxy = Status c \<and> c \<noteq> 200"
  with assms show "get_proxy_body (pool, w) = (Inl InvalidProxyError, st1)"
    by (simp add: get_proxy_body_probed)
next
  assume "probe w (probes w) proxy = ProbeRaises"
  with assms show "get_proxy_body (pool, w) = (Inl TransportError, st1)"
    by (simp add: get_proxy_body_probed)
next
  assume "get_proxy_body (pool, w) = (Inl e1, s1) \<and> get_proxy_body s1 = (Inr p, s2)"
  then show "get_proxy (pool, w) = (Inr p, s2)"
    unfolding get_proxy_def by (blast intro: stop_after_3_second)
next
  assume "get_proxy_body (pool, w) = (Inl e1, s1) \<and> get_proxy_body s1 = (Inl e2, s2) \<and>
      get_proxy_body s2 = (Inr p, s3)"
  then show "get_proxy (pool, w) = (Inr p, s3)"
    unfolding get_proxy_def by (blast intro: stop_after_3_third)
next
  assume "get_proxy_body (pool, w) = (Inl e1, s1) \<and> get_proxy_body s1 = (Inl e2, s2) \<and>
      get_proxy_body s2 = (Inl e3, s3)"
  then show "get_proxy (pool, w) = (Inl (RetryError e3), s3)"
    unfolding get_proxy_def by (blast intro: stop_after_3_fails)
qed

theorem get_proxy_retries_inside_witness:
  "get_proxy_body st_bad_first
     = (Inl InvalidProxyError,
        (\<lparr>ip_pool_count = 2, enable_validate_ip = True, proxy_list = [''10.0.0.2''],
          current_proxy = None\<rparr>,
         w_bad_first\<lparr>loads := 1, draws := 1, probes := 1\<rparr>)) \<and>
   get_proxy st_bad_first
     = (Inr ''10.0.0.2'',
        (\<lparr>ip_pool_count = 2, enable_validate_ip = True, proxy_list = [],
          current_proxy = Some ''10.0.0.2''\<rparr>,
         w_bad_first\<lparr>loads := 1, draws := 2, probes := 2\<rparr>))"
proof -
  let ?pool = "\<lparr>ip_pool_count = 2, enable_validate_ip = True,
                 proxy_list = [''10.0.0.1'', ''10.0.0.2''], current_proxy = None\<rparr>"
  let ?w = "w_bad_first\<lparr>loads := 1\<rparr>"
  let ?s1 = "(\<lparr>ip_pool_count = 2, enable_validate_ip = True, proxy_list = [''10.0.0.2''],
          current_proxy = None\<rparr>,
         w_bad_first\<lparr>loads := 1, draws := 1, probes := 1\<rparr>)"
  let ?s2 = "(\<lparr>ip_pool_count = 2, enable_validate_ip = True, proxy_list = [],
          current_proxy = Some ''10.0.0.2''\<rparr>,
         w_bad_first\<lparr>loads := 1, draws := 2, probes := 2\<rparr>)"
  have second: "get_proxy_body ?s1 = (Inr ''10.0.0.2'', ?s2)"
    by (simp add: w_bad_first_def get_proxy_body_def random_choice_def is_valid_proxy_def)
  have step: "(get_proxy_body (?pool, ?w) = (Inl InvalidProxyError, ?s1)) \<and>
        (get_proxy_body (?pool, ?w) = (Inl InvalidProxyError, ?s1) \<and>
         get_proxy_body ?s1 = (Inr ''10.0.0.2'', ?s2) \<longrightarrow>
         get_proxy (?pool, ?w) = (Inr ''10.0.0.2'', ?s2))"
    using get_proxy_retries_inside
      [of ?pool "''10.0.0.1''" ?w ?s1 503 InvalidProxyError ?s1 "''10.0.0.2''" ?s2]
    by (simp add: w_bad_first_def)
  with second show ?thesis
    by (simp add: st_bad_first_eq)
qed

text \<open>
  The claim as written fails on a pool of two endpoints of which the first drawn answers
  the probe with 503: the attempt raises, and the same call of \<open>get_proxy\<close> draws and probes
  a second endpoint and returns it.
\<close>

theorem get_proxy_replaces_invalid:
  "fst (get_proxy_body st_bad_first) = Inl InvalidProxyError \<and>
   fst (get_proxy st_bad_first) = Inr ''10.0.0.2'' \<and>
   draws (snd (snd (get_proxy st_bad_first))) = 2 \<and>
   probes (snd (snd (get_proxy st_bad_first))) = 2"
  by (simp add: st_bad_first_eq w_bad_first_def run_defs)

text \<open>
  C9, as the code has it. With an empty pool and a provider that gives the empty list,
  an attempt of \<open>get_proxy\<close> reloads the empty list and raises \<open>IndexError\<close> in
  \<open>random.choice\<close>, there being no check for an empty pool; the call makes three such
  attempts, calling the provider three times, and raises \<open>RetryError\<close> around the
  \<open>IndexError\<close>.
\<close>

theorem get_proxy_empty_provider:
  assumes "proxy_list pool = []"
    and "\<forall>k. provider w k (ip_pool_count pool) = Inr []"
  shows "get_proxy_body (pool, w) = (Inl IndexError, (pool, w\<lparr>loads := Suc (loads w)\<rparr>)) \<and>
         get_proxy (pool, w) = (Inl (RetryError IndexError), (pool, w\<lparr>loads := loads w + 3\<rparr>))"
  using assms by (simp add: get_proxy_body_empty get_proxy_empty_retry)

theorem get_proxy_empty_provider_witness:
  "get_proxy_body st_empty = (Inl IndexError, (fst st_empty, w_empty\<lparr>loads := 2\<rparr>)) \<and>
   get_proxy st_empty = (Inl (RetryError IndexError), (fst st_empty, w_empty\<lparr>loads := 4\<rparr>))"
  using get_proxy_empty_provider [of "fst st_empty" "snd st_empty"]
  by (simp add: st_empty_eq) (simp add: w_empty_def)

text \<open>
  The claim as written fails in the exception that reaches the caller: it is the
  \<open>RetryError\<close> of the decorator, raised after three reloads, not the \<open>IndexError\<close>.
\<close>

theorem get_proxy_empty_not_IndexError:
  "fst (get_proxy st_empty) \<noteq> Inl IndexError \<and>
   fst (get_proxy st_empty) = Inl (RetryError IndexError) \<and>
   loads (snd (snd (get_proxy st_empty))) = loads (snd st_empty) + 3"
  using get_proxy_empty_retry [of "fst st_empty" "snd st_empty"]
  by (simp add: st_empty_eq) (simp add: w_empty_def)

section \<open>publisher.py: uploading the images\<close>

text \<open>
  What Python does with a parsed JSON value: \<open>obj.get(key, default)\<close> (only a dict has
  \<open>get\<close>), \<open>len(obj)\<close> (a string, a list and a dict have a length) and \<open>obj[i]\<close> for an
  integer \<open>i \<ge> 0\<close> (a dict parsed from JSON has string keys only, so it has no key \<open>i\<close>).
\<close>

fun py_get :: "json \<Rightarrow> ustr \<Rightarrow> json \<Rightarrow> exn + json" where
  "py_get (JDict d) key dflt = Inr (case map_of d key of Some v \<Rightarrow> v | None \<Rightarrow> dflt)"
| "py_get _ key dflt = Inl AttributeError"

fun py_len :: "json \<Rightarrow> exn + nat" where
  "py_len (JStr s) = Inr (length s)"
| "py_len (JList xs) = Inr (length xs)"
| "py_len (JDict d) = Inr (length d)"
| "py_len _ = Inl TypeError"

fun py_getitem :: "json \<Rightarrow> nat \<Rightarrow> exn + json" where
  "py_getitem (JStr s) i = (if i < length s then Inr (JStr [s ! i]) else Inl IndexError)"
| "py_getitem (JList xs) i = (if i < length xs then Inr (xs ! i) else Inl IndexError)"
| "py_getitem (JDict d) i = Inl KeyError"
| "py_getitem _ i = Inl TypeError"

record ImageInfo =
  file_id :: json
  width :: int
  height :: int
  local_path :: ustr

text \<open>The dict \<open>get_upload_permit\<close> returns.\<close>

record permit =
  file_ids :: json
  token :: json

text \<open>
  The world of the publisher is the network of \<open>_request\<close> and, besides:
  \<open>sign_error uri method\<close>, the exception \<open>sign_func\<close> raises for this request, if any;
  \<open>image_size path\<close>, the size \<open>Image.open(path)\<close> reads, \<open>None\<close> when it raises;
  \<open>file_bytes path\<close>, what \<open>open(path, "rb").read()\<close> gives, \<open>None\<close> when it raises;
  \<open>put_answer k\<close>, what happens to the \<open>PUT\<close> sent after \<open>k\<close> earlier ones;
  \<open>puts\<close>, the file id, token and content of every \<open>PUT\<close> sent so far.
\<close>

record publish_world = http_world +
  sign_error :: "ustr \<Rightarrow> ustr \<Rightarrow> exn option"
  image_size :: "ustr \<Rightarrow> (int \<times> int) option"
  file_bytes :: "ustr \<Rightarrow> nat list option"
  put_answer :: "nat \<Rightarrow> http_outcome"
  puts :: "(json \<times> json \<times> nat list) list"

definition creator_host :: ustr where
  "creator_host = ascii ''https://creator.xiaohongshu.com''"

text \<open>\<open>_sign_headers\<close>: the headers are not modelled, an exception of \<open>sign_func\<close> is.\<close>

definition sign_headers :: "ustr \<Rightarrow> ustr \<Rightarrow> publish_world \<Rightarrow> exn + unit" where
  "sign_headers uri method w = (case sign_error w uri method of Some e \<Rightarrow> Inl e | None \<Rightarrow> Inr ())"

text \<open>
  \<open>get_upload_permit\<close>. The query parameters, \<open>file_count\<close> among them, are not part
  of the modelled request. The log line before the \<open>return\<close> evaluates
  \<open>len(data.get('file_ids', []))\<close>, so it raises what these raise.
\<close>

definition get_upload_permit :: "nat \<Rightarrow> publish_world \<Rightarrow> (exn + permit) \<times> publish_world" where
  "get_upload_permit file_count w =
     (let uri = ascii ''/api/media/v1/upload/web/permit'' in
      case sign_headers uri (ascii ''GET'') w of
        Inl e \<Rightarrow> (Inl e, w)
      | Inr _ \<Rightarrow>
          (case request (ascii ''GET'') (creator_host @ uri) w of
             (Inl e, w1) \<Rightarrow> (Inl e, w1)
           | (Inr (Raw r), w1) \<Rightarrow> (Inl AttributeError, w1)
           | (Inr (Data result), w1) \<Rightarrow>
               (case py_get result (ascii ''data'') (JDict []) of
                  Inl e \<Rightarrow> (Inl e, w1)
                | Inr data \<Rightarrow>
                    (case py_get data (ascii ''file_ids'') (JList []) of
                       Inl e \<Rightarrow> (Inl e, w1)
                     | Inr ids \<Rightarrow>
                         (case py_len ids of
                            Inl e \<Rightarrow> (Inl e, w1)
                          | Inr _ \<Rightarrow>
                              (case py_get data (ascii ''credential'') (JDict []) of
                                 Inl e \<Rightarrow> (Inl e, w1)
                               | Inr credential \<Rightarrow>
                                   (case py_get credential (ascii ''token'') (JStr []) of
                                      Inl e \<Rightarrow> (Inl e, w1)
                                    | Inr tok \<Rightarrow>
                                        (Inr \<lparr>file_ids = ids, token = tok\<rparr>, w1))))))))"

text \<open>\<open>upload_image\<close>: read the size, read the bytes, \<open>PUT\<close> them, \<open>raise_for_status\<close>.\<close>

definition upload_image ::
  "ustr \<Rightarrow> json \<Rightarrow> json \<Rightarrow> publish_world \<Rightarrow> (exn + ImageInfo) \<times> publish_world" where
  "upload_image image_path fid tok w =
     (case image_size w image_path of
        None \<Rightarrow> (Inl OSError, w)
      | Some (wd, ht) \<Rightarrow>
          (case file_bytes w image_path of
             None \<Rightarrow> (Inl OSError, w)
           | Some image_data \<Rightarrow>
               (let w1 = w\<lparr>puts := puts w @ [(fid, tok, image_data)]\<rparr> in
                case put_answer w (length (puts w)) of
                  NoResponse \<Rightarrow> (Inl TransportError, w1)
                | Responds r \<Rightarrow>
                    (case raise_for_status r of
                       Inl e \<Rightarrow> (Inl e, w1)
                     | Inr _ \<Rightarrow>
                         (Inr \<lparr>file_id = fid, width = wd, height = ht,
                               local_path = image_path\<rparr>, w1)))))"

text \<open>
  The loop of \<open>upload_images\<close>, \<open>i\<close> being the index \<open>enumerate\<close> has reached and
  \<open>results\<close> the list built so far.
\<close>

fun upload_loop ::
  "json \<Rightarrow> json \<Rightarrow> nat \<Rightarrow> ustr list \<Rightarrow> ImageInfo list \<Rightarrow> publish_world
     \<Rightarrow> (exn + ImageInfo list) \<times> publish_world" where
  "upload_loop ids tok i [] results w = (Inr results, w)"
| "upload_loop ids tok i (path # paths) results w =
     (case py_getitem ids i of
        Inl e \<Rightarrow> (Inl e, w)
      | Inr fid \<Rightarrow>
          (case upload_image path fid tok w of
             (Inl e, w1) \<Rightarrow> (Inl e, w1)
           | (Inr info, w1) \<Rightarrow> upload_loop ids tok (Suc i) paths (results @ [info]) w1))"

definition upload_images :: "ustr list \<Rightarrow> publish_world \<Rightarrow> (exn + ImageInfo list) \<times> publish_world" where
  "upload_images image_paths w =
     (if image_paths = [] then (Inl ValueError, w)
      else
        (case get_upload_permit (length image_paths) w of
           (Inl e, w1) \<Rightarrow> (Inl e, w1)
         | (Inr p, w1) \<Rightarrow>
             (case py_len (file_ids p) of
                Inl e \<Rightarrow> (Inl e, w1)
              | Inr k \<Rightarrow>
                  if k < length image_paths
                  then (Inl (InsufficientCredentialError k (length image_paths)), w1)
                  else upload_loop (file_ids p) (token p) 0 image_paths [] w1)))"

record NoteContent =
  title :: ustr
  desc :: ustr
  images :: "ustr list"
  topics :: "ustr list"

text \<open>
  \<open>publish_note\<close> begins with \<open>images = await self.upload_images(content.images)\<close>; the
  steps after it (topic search, description, payload, the signed \<open>POST\<close>) are the
  parameter \<open>rest\<close>, which runs only when the upload has returned.
\<close>

definition publish_note ::
  "(NoteContent \<Rightarrow> ImageInfo list \<Rightarrow> publish_world \<Rightarrow> (exn + 'r) \<times> publish_world)
     \<Rightarrow> NoteContent \<Rightarrow> publish_world \<Rightarrow> (exn + 'r) \<times> publish_world" where
  "publish_note rest content w =
     (case upload_images (images content) w of
        (Inl e, w1) \<Rightarrow> (Inl e, w1)
      | (Inr imgs, w1) \<Rightarrow> rest content imgs w1)"

text \<open>A provider that answers every request with a permit for the given file ids.\<close>

definition permit_response :: "json list \<Rightarrow> response" where
  "permit_response ids =
     \<lparr>status_code = 200, content_type = Some (ascii ''application/json''),
      response_text = [],
      json_value =
        Inr (JDict [(ascii ''data'',
               JDict [(ascii ''file_ids'', JList ids),
                      (ascii ''credential'', JDict [(ascii ''token'', JStr (ascii ''t''))])])])\<rparr>"

definition r_ok :: response where
  "r_ok = \<lparr>status_code = 200, content_type = None, response_text = [], json_value = Inl JSONDecodeError\<rparr>"

definition w_permit :: "json list \<Rightarrow> publish_world" where
  "w_permit ids =
     \<lparr>http = (\<lambda>k. Responds (permit_response ids)), sent = [],
      sign_error = (\<lambda>uri m. None),
      image_size = (\<lambda>path. Some (640, 480)),
      file_bytes = (\<lambda>path. Some [255, 216, 255]),
      put_answer = (\<lambda>k. Responds r_ok),
      puts = []\<rparr>"

definition two_paths :: "ustr list" where
  "two_paths = [ascii ''a.jpg'', ascii ''b.jpg'']"

definition a_note :: NoteContent where
  "a_note = \<lparr>title = ascii ''t'', desc = ascii ''hello'', images = two_paths, topics = []\<rparr>"

subsection \<open>The permit request sends no \<open>PUT\<close>\<close>

lemma request_attempt_puts: "request_attempt m u w = (r, w') \<Longrightarrow> puts w' = puts w"
  by (auto simp: request_attempt_def Let_def split: http_outcome.splits sum.splits if_splits)

lemma request_puts:
  assumes "request m u w = (r, w')"
  shows "puts w' = puts w"
proof -
  from assms have run: "retry_loop 2 (request_attempt m u) w = (r, w')"
    by (simp add: request_def stop_after_attempt_def)
  show ?thesis
    by (rule retry_loop_rel [OF run, where R = "\<lambda>a b. puts b = puts a"])
      (auto dest: request_attempt_puts)
qed

lemma get_upload_permit_puts: "get_upload_permit n w = (r, w') \<Longrightarrow> puts w' = puts w"
  by (auto simp: get_upload_permit_def Let_def 
      split: sum.splits prod.splits request_result.splits dest: request_puts)

lemma get_upload_permit_w_permit:
  "get_upload_permit n (w_permit ids) =
     (Inr \<lparr>file_ids = JList ids, token = JStr (ascii ''t'')\<rparr>,
      (w_permit ids)
        \<lparr>sent := [(ascii ''GET'', creator_host @ ascii ''/api/media/v1/upload/web/permit'')]\<rparr>)"
proof -
  let ?u = "creator_host @ ascii ''/api/media/v1/upload/web/permit''"
  let ?d = "JDict [(ascii ''data'',
               JDict [(ascii ''file_ids'', JList ids),
                      (ascii ''credential'', JDict [(ascii ''token'', JStr (ascii ''t''))])])]"
  have "request_attempt (ascii ''GET'') ?u (w_permit ids)
          = (Inr (Data ?d), (w_permit ids)\<lparr>sent := [(ascii ''GET'', ?u)]\<rparr>)"
    by (simp add: request_attempt_def raise_for_status_def w_permit_def permit_response_def)
  then have "request (ascii ''GET'') ?u (w_permit ids)
          = (Inr (Data ?d), (w_permit ids)\<lparr>sent := [(ascii ''GET'', ?u)]\<rparr>)"
    unfolding request_def by (rule stop_after_3_returns)
  moreover have "sign_headers (ascii ''/api/media/v1/upload/web/permit'') (ascii ''GET'') (w_permit ids) = Inr ()"
    by (simp add: sign_headers_def w_permit_def)
  moreover have "ascii ''data'' \<noteq> ascii ''file_ids''" "ascii ''file_ids'' \<noteq> ascii ''credential''"
    "ascii ''credential'' \<noteq> ascii ''file_ids''"
    by (simp_all add: ascii_def)
  ultimately show ?thesis
    by (simp add: get_upload_permit_def)
qed

lemma upload_images_enough:
  "fst (upload_images two_paths (w_permit [JStr (ascii ''f1''), JStr (ascii ''f2'')]))
     = Inr [\<lparr>file_id = JStr (ascii ''f1''), width = 640, height = 480, local_path = ascii ''a.jpg''\<rparr>,
            \<lparr>file_id = JStr (ascii ''f2''), width = 640, height = 480, local_path = ascii ''b.jpg''\<rparr>] \<and>
   map fst (puts (snd (upload_images two_paths (w_permit [JStr (ascii ''f1''), JStr (ascii ''f2'')]))))
     = [JStr (ascii ''f1''), JStr (ascii ''f2'')]"
  by (simp add: upload_images_def get_upload_permit_w_permit two_paths_def)
    (simp add: upload_image_def raise_for_status_def w_permit_def r_ok_def)

text \<open>
  C1: when a publish run asks for uploads of a non-empty list of images and the permit
  comes back with fewer file ids than images, \<open>upload_images\<close> raises the
  insufficient-credential error, no \<open>PUT\<close> has been sent (the list of \<open>PUT\<close>s is what it
  was before the call), and \<open>publish_note\<close> fails with the same error before any later
  step runs.
\<close>

theorem upload_images_insufficient:
  assumes "image_paths \<noteq> []"
    and "get_upload_permit (length image_paths) w = (Inr p, w1)"
    and "py_len (file_ids p) = Inr k" and "k < length image_paths"
  shows "upload_images image_paths w
           = (Inl (InsufficientCredentialError k (length image_paths)), w1) \<and>
         puts w1 = puts w \<and>
         (images content = image_paths \<longrightarrow>
            publish_note rest content w
              = (Inl (InsufficientCredentialError k (length image_paths)), w1))"
  using assms by (auto simp: upload_images_def publish_note_def dest: get_upload_permit_puts)

theorem upload_images_insufficient_witness:
  "fst (upload_images two_paths (w_permit [JStr (ascii ''f1'')]))
     = Inl (InsufficientCredentialError 1 2) \<and>
   puts (snd (upload_images two_paths (w_permit [JStr (ascii ''f1'')]))) = [] \<and>
   fst (publish_note (\<lambda>c imgs w. (Inr imgs, w)) a_note (w_permit [JStr (ascii ''f1'')]))
     = Inl (InsufficientCredentialError 1 2)"
proof -
  let ?w = "w_permit [JStr (ascii ''f1'')]"
  let ?w1 = "?w\<lparr>sent := [(ascii ''GET'', creator_host @ ascii ''/api/media/v1/upload/web/permit'')]\<rparr>"
  let ?p = "\<lparr>file_ids = JList [JStr (ascii ''f1'')], token = JStr (ascii ''t'')\<rparr>"
  have a: "two_paths \<noteq> []" and n: "length two_paths = 2"
    by (simp_all add: two_paths_def)
  have b: "get_upload_permit (length two_paths) ?w = (Inr ?p, ?w1)"
    by (rule get_upload_permit_w_permit)
  have c: "py_len (file_ids ?p) = Inr 1" and d: "1 < length two_paths"
    by (simp_all add: two_paths_def)
  have e: "puts ?w = []" and f: "images a_note = two_paths"
    by (simp_all add: w_permit_def a_note_def)
  from upload_images_insufficient
    [OF a b c d, where content = a_note and rest = "\<lambda>c imgs w. (Inr imgs, w)"] n e f
  show ?thesis
    by simp
qed

section \<open>human_behavior.py\<close>

text \<open>
  The settings of \<open>config\<close> this module reads. Durations are seconds; Python's floats
  are taken as real numbers.
\<close>

record config =
  ENABLE_HUMAN_BEHAVIOR :: bool
  SESSION_BREAK_INTERVAL :: int
  CRAWLER_MAX_SLEEP_SEC :: real
  PAGE_VIEW_MIN_SEC :: real
  PAGE_VIEW_MAX_SEC :: real
  ACTION_INTERVAL_MIN_SEC :: real
  ACTION_INTERVAL_MAX_SEC :: real
  COMMENT_CRAWL_MIN_SEC :: real
  COMMENT_CRAWL_MAX_SEC :: real
  SESSION_BREAK_MIN_SEC :: real
  SESSION_BREAK_MAX_SEC :: real

record HumanBehavior =
  enabled :: bool
  action_count :: int
  break_interval :: int

text \<open>\<open>HumanBehavior.__init__\<close>\<close>

definition HumanBehavior_init :: "config \<Rightarrow> HumanBehavior" where
  "HumanBehavior_init cfg =
     \<lparr>enabled = ENABLE_HUMAN_BEHAVIOR cfg, action_count = 0,
      break_interval = SESSION_BREAK_INTERVAL cfg\<rparr>"

text \<open>
  \<open>random.uniform(a, b)\<close> is \<open>a + (b - a) * random()\<close>, where \<open>random()\<close> draws \<open>u\<close> with
  \<open>0 \<le> u < 1\<close>. Every function below takes the draw as its last argument and gives the
  duration it sleeps for.
\<close>

definition uniform :: "real \<Rightarrow> real \<Rightarrow> real \<Rightarrow> real" where
  "uniform a b u = a + (b - a) * u"

definition random_delay :: "HumanBehavior \<Rightarrow> config \<Rightarrow> real \<Rightarrow> real \<Rightarrow> real \<Rightarrow> real" where
  "random_delay hb cfg min_sec max_sec u =
     (if \<not> enabled hb then CRAWLER_MAX_SLEEP_SEC cfg else uniform min_sec max_sec u)"

definition page_view_delay :: "HumanBehavior \<Rightarrow> config \<Rightarrow> int \<Rightarrow> real \<Rightarrow> real" where
  "page_view_delay hb cfg content_length u =
     (if \<not> enabled hb then CRAWLER_MAX_SLEEP_SEC cfg
      else
        (let extra_time = min (real_of_int content_length / 2000) 2 in
         uniform (PAGE_VIEW_MIN_SEC cfg) (PAGE_VIEW_MAX_SEC cfg) u + extra_time))"

definition action_delay :: "HumanBehavior \<Rightarrow> config \<Rightarrow> real \<Rightarrow> real" where
  "action_delay hb cfg u =
     (if \<not> enabled hb then CRAWLER_MAX_SLEEP_SEC cfg
      else uniform (ACTION_INTERVAL_MIN_SEC cfg) (ACTION_INTERVAL_MAX_SEC cfg) u)"

definition comment_crawl_delay :: "HumanBehavior \<Rightarrow> config \<Rightarrow> real \<Rightarrow> real" where
  "comment_crawl_delay hb cfg u =
     (if \<not> enabled hb then CRAWLER_MAX_SLEEP_SEC cfg
      else uniform (COMMENT_CRAWL_MIN_SEC cfg) (COMMENT_CRAWL_MAX_SEC cfg) u)"

definition session_break_delay :: "HumanBehavior \<Rightarrow> config \<Rightarrow> real \<Rightarrow> real" where
  "session_break_delay hb cfg u =
     (if \<not> enabled hb then CRAWLER_MAX_SLEEP_SEC cfg
      else uniform (SESSION_BREAK_MIN_SEC cfg) (SESSION_BREAK_MAX_SEC cfg) u)"

text \<open>
  \<open>check_and_take_break\<close> gives the duration of the session break it took, or \<open>None\<close>
  when it took none, and the scheduler with its counter as the call leaves it.
\<close>

definition check_and_take_break ::
  "config \<Rightarrow> real \<Rightarrow> HumanBehavior \<Rightarrow> real option \<times> HumanBehavior" where
  "check_and_take_break cfg u hb =
     (if \<not> enabled hb then (None, hb)
      else
        (let hb1 = hb\<lparr>action_count := action_count hb + 1\<rparr> in
         if action_count hb1 \<ge> break_interval hb1
         then (Some (session_break_delay hb1 cfg u), hb1\<lparr>action_count := 0\<rparr>)
         else (None, hb1)))"

text \<open>One call of \<open>check_and_take_break\<close> after the other, one for each draw of the list.\<close>

fun check_and_take_break_calls ::
  "config \<Rightarrow> real list \<Rightarrow> HumanBehavior \<Rightarrow> real option list \<times> HumanBehavior" where
  "check_and_take_break_calls cfg [] hb = ([], hb)"
| "check_and_take_break_calls cfg (u # us) hb =
     (case check_and_take_break cfg u hb of (b, hb1) \<Rightarrow>
        (case check_and_take_break_calls cfg us hb1 of (bs, hb2) \<Rightarrow> (b # bs, hb2)))"

text \<open>The settings of \<open>config/base_config.py\<close>.\<close>

definition base_config :: config where
  "base_config =
     \<lparr>ENABLE_HUMAN_BEHAVIOR = True, SESSION_BREAK_INTERVAL = 30, CRAWLER_MAX_SLEEP_SEC = 2,
      PAGE_VIEW_MIN_SEC = 2, PAGE_VIEW_MAX_SEC = 5,
      ACTION_INTERVAL_MIN_SEC = 1 / 2, ACTION_INTERVAL_MAX_SEC = 3 / 2,
      COMMENT_CRAWL_MIN_SEC = 1, COMMENT_CRAWL_MAX_SEC = 5 / 2,
      SESSION_BREAK_MIN_SEC = 10, SESSION_BREAK_MAX_SEC = 30\<rparr>"

definition hb_on :: HumanBehavior where
  "hb_on = HumanBehavior_init base_config"

definition hb_off :: HumanBehavior where
  "hb_off = HumanBehavior_init (base_config\<lparr>ENABLE_HUMAN_BEHAVIOR := False\<rparr>)"

subsection \<open>The draw stays in its interval, the counter below its threshold\<close>

lemma uniform_bounds:
  assumes "a \<le> b" and "0 \<le> u" and "u < 1"
  shows "a \<le> uniform a b u" and "uniform a b u \<le> b"
proof -
  from assms have "0 \<le> (b - a) * u"
    by simp
  then show "a \<le> uniform a b u"
    by (simp add: uniform_def)
  from assms have "(b - a) * u \<le> (b - a) * 1"
    by (intro mult_left_mono) simp_all
  then show "uniform a b u \<le> b"
    by (simp add: uniform_def)
qed

lemma no_break_calls:
  "enabled hb \<Longrightarrow> action_count hb + int (length us) < break_interval hb \<Longrightarrow>
   check_and_take_break_calls cfg us hb
     = (replicate (length us) None, hb\<lparr>action_count := action_count hb + int (length us)\<rparr>)"
proof (induction us arbitrary: hb)
  case Nil
  then show ?case by simp
next
  case (Cons u us)
  let ?hb1 = "hb\<lparr>action_count := action_count hb + 1\<rparr>"
  from Cons.prems have step: "check_and_take_break cfg u hb = (None, ?hb1)"
    by (simp add: check_and_take_break_def)
  from Cons.prems have "enabled ?hb1" "action_count ?hb1 + int (length us) < break_interval ?hb1"
    by simp_all
  then have "check_and_take_break_calls cfg us ?hb1
     = (replicate (length us) None, ?hb1\<lparr>action_count := action_count ?hb1 + int (length us)\<rparr>)"
    by (rule Cons.IH)
  with step show ?case
    by (simp add: add.assoc)
qed

lemma check_and_take_break_calls_append:
  "check_and_take_break_calls cfg (us @ vs) hb =
     (case check_and_take_break_calls cfg us hb of (bs, hb1) \<Rightarrow>
        (case check_and_take_break_calls cfg vs hb1 of (cs, hb2) \<Rightarrow> (bs @ cs, hb2)))"
  by (induction us arbitrary: hb) (auto split: prod.splits)

lemma page_view_delay_bounds:
  assumes "enabled hb" and "PAGE_VIEW_MIN_SEC cfg \<le> PAGE_VIEW_MAX_SEC cfg"
    and "0 \<le> content_length" and "0 \<le> u" and "u < 1"
  shows "PAGE_VIEW_MIN_SEC cfg \<le> page_view_delay hb cfg content_length u"
    and "page_view_delay hb cfg content_length u
           \<le> PAGE_VIEW_MAX_SEC cfg + min (real_of_int content_length / 2000) 2"
proof -
  let ?extra = "min (real_of_int content_length / 2000) 2"
  let ?d = "uniform (PAGE_VIEW_MIN_SEC cfg) (PAGE_VIEW_MAX_SEC cfg) u"
  from assms(3) have extra: "0 \<le> ?extra"
    by simp
  from assms(1) have eq: "page_view_delay hb cfg content_length u = ?d + ?extra"
    by (simp add: page_view_delay_def)
  from uniform_bounds [OF assms(2,4,5)] have "PAGE_VIEW_MIN_SEC cfg \<le> ?d" "?d \<le> PAGE_VIEW_MAX_SEC cfg"
    by simp_all
  with extra eq show "PAGE_VIEW_MIN_SEC cfg \<le> page_view_delay hb cfg content_length u"
    and "page_view_delay hb cfg content_length u \<le> PAGE_VIEW_MAX_SEC cfg + ?extra"
    by simp_all
qed

text \<open>
  C6: on a scheduler with the simulation enabled and the counter at 0,
  \<open>break_interval\<close> calls of \<open>check_and_take_break\<close> (at least one, that is) take exactly
  one session break, in the last of these calls and in none before it, and leave the
  counter at 0.
\<close>

theorem break_after_break_interval_calls:
  assumes "enabled hb" and "action_count hb = 0"
    and "break_interval hb = int (length us)" and "us \<noteq> []"
  shows "check_and_take_break_calls cfg us hb
           = (replicate (length us - 1) None @
                [Some (uniform (SESSION_BREAK_MIN_SEC cfg) (SESSION_BREAK_MAX_SEC cfg) (last us))],
              hb\<lparr>action_count := 0\<rparr>)"
proof -
  let ?n = "length us - 1"
  let ?hb1 = "hb\<lparr>action_count := int ?n\<rparr>"
  from assms(4) have us: "us = butlast us @ [last us]" and len: "length (butlast us) = ?n"
    by simp_all
  from assms have "action_count hb + int (length (butlast us)) < break_interval hb"
    by (simp add: len)
  with assms(1) have first: "check_and_take_break_calls cfg (butlast us) hb
      = (replicate ?n None, ?hb1)"
    using no_break_calls [of hb "butlast us" cfg] assms(2) by (simp add: len)
  from assms have "int ?n + 1 = break_interval hb"
    by (cases us) simp_all
  with assms(1) have lastc: "check_and_take_break cfg (last us) ?hb1
      = (Some (uniform (SESSION_BREAK_MIN_SEC cfg) (SESSION_BREAK_MAX_SEC cfg) (last us)),
         hb\<lparr>action_count := 0\<rparr>)"
    by (simp add: check_and_take_break_def session_break_delay_def)
  have "check_and_take_break_calls cfg (butlast us @ [last us]) hb
          = (replicate ?n None @
                [Some (uniform (SESSION_BREAK_MIN_SEC cfg) (SESSION_BREAK_MAX_SEC cfg) (last us))],
              hb\<lparr>action_count := 0\<rparr>)"
    using lastc by (simp add: check_and_take_break_calls_append first)
  with us show ?thesis by simp
qed

theorem break_after_break_interval_calls_witness:
  "check_and_take_break_calls base_config (replicate 30 (1 / 2)) (HumanBehavior_init base_config)
     = (replicate 29 None @ [Some 20], HumanBehavior_init base_config)"
  using break_after_break_interval_calls
    [of "HumanBehavior_init base_config" "replicate 30 (1 / 2)" base_config]
  by (simp add: HumanBehavior_init_def base_config_def uniform_def)

text \<open>
  C7: for a draw \<open>0 \<le> u < 1\<close>. With the simulation enabled, the generic, action,
  comment and session-break delays lie in their interval \<open>[min, max]\<close> (for \<open>min \<le> max\<close>),
  and the page-view delay is the draw from its interval plus \<open>content_length / 2000\<close>
  capped at 2, so for a content length that is not negative it lies in
  \<open>[min, max + min(content_length / 2000, 2)]\<close>. With the simulation disabled every
  delay is the one fixed \<open>CRAWLER_MAX_SLEEP_SEC\<close>.
\<close>

theorem delays_within_intervals:
  assumes "0 \<le> u" and "u < 1"
  shows
    "(enabled hb \<and> min_sec \<le> max_sec \<longrightarrow>
        min_sec \<le> random_delay hb cfg min_sec max_sec u \<and>
        random_delay hb cfg min_sec max_sec u \<le> max_sec) \<and>
     (enabled hb \<and> ACTION_INTERVAL_MIN_SEC cfg \<le> ACTION_INTERVAL_MAX_SEC cfg \<longrightarrow>
        ACTION_INTERVAL_MIN_SEC cfg \<le> action_delay hb cfg u \<and>
        action_delay hb cfg u \<le> ACTION_INTERVAL_MAX_SEC cfg) \<and>
     (enabled hb \<and> COMMENT_CRAWL_MIN_SEC cfg \<le> COMMENT_CRAWL_MAX_SEC cfg \<longrightarrow>
        COMMENT_CRAWL_MIN_SEC cfg \<le> comment_crawl_delay hb cfg u \<and>
        comment_crawl_delay hb cfg u \<le> COMMENT_CRAWL_MAX_SEC cfg) \<and>
     (enabled hb \<and> SESSION_BREAK_MIN_SEC cfg \<le> SESSION_BREAK_MAX_SEC cfg \<longrightarrow>
        SESSION_BREAK_MIN_SEC cfg \<le> session_break_delay hb cfg u \<and>
        session_break_delay hb cfg u \<le> SESSION_BREAK_MAX_SEC cfg) \<and>
     (enabled hb \<longrightarrow>
        page_view_delay hb cfg content_length u
          = uniform (PAGE_VIEW_MIN_SEC cfg) (PAGE_VIEW_MAX_SEC cfg) u
              + min (real_of_int content_length / 2000) 2) \<and>
     (enabled hb \<and> PAGE_VIEW_MIN_SEC cfg \<le> PAGE_VIEW_MAX_SEC cfg \<and> 0 \<le> content_length \<longrightarrow>
        PAGE_VIEW_MIN_SEC cfg \<le> page_view_delay hb cfg content_length u \<and>
        page_view_delay hb cfg content_length u
          \<le> PAGE_VIEW_MAX_SEC cfg + min (real_of_int content_length / 2000) 2) \<and>
     (\<not> enabled hb \<longrightarrow>
        random_delay hb cfg min_sec max_sec u = CRAWLER_MAX_SLEEP_SEC cfg \<and>
        page_view_delay hb cfg content_length u = CRAWLER_MAX_SLEEP_SEC cfg \<and>
        action_delay hb cfg u = CRAWLER_MAX_SLEEP_SEC cfg \<and>
        comment_crawl_delay hb cfg u = CRAWLER_MAX_SLEEP_SEC cfg \<and>
        session_break_delay hb cfg u = CRAWLER_MAX_SLEEP_SEC cfg)"
proof (intro conjI impI)
  assume "enabled hb \<and> min_sec \<le> max_sec"
  then show "min_sec \<le> random_delay hb cfg min_sec max_sec u"
    and "random_delay hb cfg min_sec max_sec u \<le> max_sec"
    using assms by (simp_all add: random_delay_def uniform_bounds)
next
  assume "enabled hb \<and> ACTION_INTERVAL_MIN_SEC cfg \<le> ACTION_INTERVAL_MAX_SEC cfg"
  then show "ACTION_INTERVAL_MIN_SEC cfg \<le> action_delay hb cfg u"
    and "action_delay hb cfg u \<le> ACTION_INTERVAL_MAX_SEC cfg"
    using assms by (simp_all add: action_delay_def uniform_bounds)
next
  assume "enabled hb \<and> COMMENT_CRAWL_MIN_SEC cfg \<le> COMMENT_CRAWL_MAX_SEC cfg"
  then show "COMMENT_CRAWL_MIN_SEC cfg \<le> comment_crawl_delay hb cfg u"
    and "comment_crawl_delay hb cfg u \<le> COMMENT_CRAWL_MAX_SEC cfg"
    using assms by (simp_all add: comment_crawl_delay_def uniform_bounds)
next
  assume "enabled hb \<and> SESSION_BREAK_MIN_SEC cfg \<le> SESSION_BREAK_MAX_SEC cfg"
  then show "SESSION_BREAK_MIN_SEC cfg \<le> session_break_delay hb cfg u"
    and "session_break_delay hb cfg u \<le> SESSION_BREAK_MAX_SEC cfg"
    using assms by (simp_all add: session_break_delay_def uniform_bounds)
next
  assume "enabled hb"
  then show "page_view_delay hb cfg content_length u
          = uniform (PAGE_VIEW_MIN_SEC cfg) (PAGE_VIEW_MAX_SEC cfg) u
              + min (real_of_int content_length / 2000) 2"
    by (simp add: page_view_delay_def)
next
  assume "enabled hb \<and> PAGE_VIEW_MIN_SEC cfg \<le> PAGE_VIEW_MAX_SEC cfg \<and> 0 \<le> content_length"
  then show "PAGE_VIEW_MIN_SEC cfg \<le> page_view_delay hb cfg content_length u"
    and "page_view_delay hb cfg content_length u
          \<le> PAGE_VIEW_MAX_SEC cfg + min (real_of_int content_length / 2000) 2"
    using assms by (simp_all add: page_view_delay_bounds)
next
  assume "\<not> enabled hb"
  then show "random_delay hb cfg min_sec max_sec u = CRAWLER_MAX_SLEEP_SEC cfg"
    and "page_view_delay hb cfg content_length u = CRAWLER_MAX_SLEEP_SEC cfg"
    and "action_delay hb cfg u = CRAWLER_MAX_SLEEP_SEC cfg"
    and "comment_crawl_delay hb cfg u = CRAWLER_MAX_SLEEP_SEC cfg"
    and "session_break_delay hb cfg u = CRAWLER_MAX_SLEEP_SEC cfg"
    by (simp_all add: random_delay_def page_view_delay_def action_delay_def
        comment_crawl_delay_def session_break_delay_def)
qed

theorem delays_within_intervals_witness:
  "3 / 2 \<le> random_delay hb_on base_config (3 / 2) 3 (1 / 2) \<and>
   random_delay hb_on base_config (3 / 2) 3 (1 / 2) \<le> 3 \<and>
   1 / 2 \<le> action_delay hb_on base_config (1 / 2) \<and>
   action_delay hb_on base_config (1 / 2) \<le> 3 / 2 \<and>
   1 \<le> comment_crawl_delay hb_on base_config (1 / 2) \<and>
   comment_crawl_delay hb_on base_config (1 / 2) \<le> 5 / 2 \<and>
   10 \<le> session_break_delay hb_on base_config (1 / 2) \<and>
   session_break_delay hb_on base_config (1 / 2) \<le> 30 \<and>
   page_view_delay hb_on base_config 1000 (1 / 2) = uniform 2 5 (1 / 2) + 1 / 2 \<and>
   2 \<le> page_view_delay hb_on base_config 1000 (1 / 2) \<and>
   page_view_delay hb_on base_config 1000 (1 / 2) \<le> 5 + 1 / 2 \<and>
   page_view_delay hb_on base_config 10000 (1 / 2) = uniform 2 5 (1 / 2) + 2 \<and>
   page_view_delay hb_on base_config 10000 (1 / 2) \<le> 5 + 2 \<and>
   random_delay hb_off base_config (3 / 2) 3 (1 / 2) = 2 \<and>
   page_view_delay hb_off base_config 1000 (1 / 2) = 2 \<and>
   action_delay hb_off base_config (1 / 2) = 2 \<and>
   comment_crawl_delay hb_off base_config (1 / 2) = 2 \<and>
   session_break_delay hb_off base_config (1 / 2) = 2"
proof -
  have on: "enabled hb_on" and off: "\<not> enabled hb_off"
    by (simp_all add: hb_on_def hb_off_def HumanBehavior_init_def base_config_def)
  have u: "(0::real) \<le> 1 / 2" "(1::real) / 2 < 1"
    by simp_all
  have cfg: "ACTION_INTERVAL_MIN_SEC base_config = 1 / 2" "ACTION_INTERVAL_MAX_SEC base_config = 3 / 2"
    "COMMENT_CRAWL_MIN_SEC base_config = 1" "COMMENT_CRAWL_MAX_SEC base_config = 5 / 2"
    "SESSION_BREAK_MIN_SEC base_config = 10" "SESSION_BREAK_MAX_SEC base_config = 30"
    "PAGE_VIEW_MIN_SEC base_config = 2" "PAGE_VIEW_MAX_SEC base_config = 5"
    "CRAWLER_MAX_SLEEP_SEC base_config = 2"
    by (simp_all add: base_config_def)
  from delays_within_intervals [OF u, of hb_on "3 / 2" 3 base_config 1000]
    delays_within_intervals [OF u, of hb_on "3 / 2" 3 base_config 10000]
    delays_within_intervals [OF u, of hb_off "3 / 2" 3 base_config 1000]
  show ?thesis
    by (simp add: on off cfg)
qed

section \<open>browser_launcher.py: cleanup\<close>

text \<open>The \<open>Popen\<close> object of the browser, known by its \<open>pid\<close>.\<close>

record process =
  pid :: int

record BrowserLauncher =
  system :: ustr
  browser_process :: "process option"
  debug_port :: "int option"

datatype signal = SIGTERM | SIGKILL

datatype os_call = Terminate | Wait | Taskkill int | Killpg int signal

text \<open>
  The operating system during one \<open>cleanup\<close>: \<open>poll_result\<close> is what \<open>process.poll()\<close>
  gives (\<open>None\<close> while the process runs); \<open>getpgid_result\<close> is the process group or the
  exception of \<open>os.getpgid\<close>; \<open>terminate_raises\<close>, \<open>run_taskkill_raises\<close> and
  \<open>killpg_raises sig\<close> are the exceptions of \<open>process.terminate()\<close>, of
  \<open>subprocess.run(["taskkill", ...])\<close> and of \<open>os.killpg(pgid, sig)\<close>, \<open>None\<close> when they
  return; \<open>wait_raises k\<close> is the exception of the \<open>k\<close>-th \<open>process.wait(timeout=5)\<close>,
  \<open>TimeoutExpired\<close> when the process is still there after five seconds. \<open>calls\<close> lists the
  calls made so far.
\<close>

record os_world =
  poll_result :: "int option"
  getpgid_result :: "exn + int"
  terminate_raises :: "exn option"
  run_taskkill_raises :: "exn option"
  killpg_raises :: "signal \<Rightarrow> exn option"
  wait_raises :: "nat \<Rightarrow> exn option"
  calls :: "os_call list"

definition os_do :: "os_call \<Rightarrow> exn option \<Rightarrow> os_world \<Rightarrow> (exn + unit) \<times> os_world" where
  "os_do c raises w =
     ((case raises of None \<Rightarrow> Inr () | Some e \<Rightarrow> Inl e), w\<lparr>calls := calls w @ [c]\<rparr>)"

text \<open>\<open>process.wait(timeout=5)\<close>\<close>

definition process_wait :: "os_world \<Rightarrow> (exn + unit) \<times> os_world" where
  "process_wait w = os_do Wait (wait_raises w (count_list (calls w) Wait)) w"

text \<open>The body of the \<open>try\<close> on Windows.\<close>

definition cleanup_windows :: "process \<Rightarrow> os_world \<Rightarrow> (exn + unit) \<times> os_world" where
  "cleanup_windows p w =
     (case os_do Terminate (terminate_raises w) w of
        (Inl e, w1) \<Rightarrow> (Inl e, w1)
      | (Inr _, w1) \<Rightarrow>
          (case process_wait w1 of
             (Inr _, w2) \<Rightarrow> (Inr (), w2)
           | (Inl e, w2) \<Rightarrow>
               if e = TimeoutExpired then
                 (case os_do (Taskkill (pid p)) (run_taskkill_raises w2) w2 of
                    (Inl e', w3) \<Rightarrow> (Inl e', w3)
                  | (Inr _, w3) \<Rightarrow> process_wait w3)
               else (Inl e, w2)))"

text \<open>The body of the \<open>try\<close> elsewhere.\<close>

definition cleanup_posix :: "process \<Rightarrow> os_world \<Rightarrow> (exn + unit) \<times> os_world" where
  "cleanup_posix p w =
     (case getpgid_result w of
        Inl e \<Rightarrow> (Inl e, w)
      | Inr pgid \<Rightarrow>
          (case os_do (Killpg pgid SIGTERM) (killpg_raises w SIGTERM) w of
             (Inl e, w1) \<Rightarrow> if e = ProcessLookupError then (Inr (), w1) else (Inl e, w1)
           | (Inr _, w1) \<Rightarrow>
               (case process_wait w1 of
                  (Inr _, w2) \<Rightarrow> (Inr (), w2)
                | (Inl e, w2) \<Rightarrow>
                    if e = TimeoutExpired then
                      (case os_do (Killpg pgid SIGKILL) (killpg_raises w2 SIGKILL) w2 of
                         (Inl e', w3) \<Rightarrow> (Inl e', w3)
                       | (Inr _, w3) \<Rightarrow> process_wait w3)
                    else (Inl e, w2))))"

text \<open>
  \<open>cleanup\<close>: \<open>except Exception\<close> logs whatever the \<open>try\<close> raised, and \<open>finally\<close> clears
  the handle.
\<close>

definition cleanup ::
  "BrowserLauncher \<Rightarrow> os_world \<Rightarrow> (exn + unit) \<times> BrowserLauncher \<times> os_world" where
  "cleanup l w =
     (case browser_process l of
        None \<Rightarrow> (Inr (), l, w)
      | Some p \<Rightarrow>
          if poll_result w \<noteq> None then (Inr (), l\<lparr>browser_process := None\<rparr>, w)
          else
            (case (if system l = ascii ''Windows'' then cleanup_windows p w
                   else cleanup_posix p w) of
               (Inl e, w1) \<Rightarrow> (Inr (), l\<lparr>browser_process := None\<rparr>, w1)
             | (Inr _, w1) \<Rightarrow> (Inr (), l\<lparr>browser_process := None\<rparr>, w1)))"

text \<open>A browser that ignores \<open>SIGTERM\<close> and is still there five seconds after \<open>SIGKILL\<close>.\<close>

definition linux_launcher :: BrowserLauncher where
  "linux_launcher = \<lparr>system = ascii ''Linux'', browser_process = Some \<lparr>pid = 4242\<rparr>,
                      debug_port = Some 9222\<rparr>"

definition w_stubborn :: os_world where
  "w_stubborn =
     \<lparr>poll_result = None, getpgid_result = Inr 4242, terminate_raises = None,
      run_taskkill_raises = None, killpg_raises = (\<lambda>s. None),
      wait_raises = (\<lambda>k. Some TimeoutExpired), calls = []\<rparr>"

subsection \<open>Every path of \<open>cleanup\<close> returns\<close>

lemma cleanup_returns:
  "\<exists>w1. cleanup l w = (Inr (), l\<lparr>browser_process := None\<rparr>, w1)"
proof (cases "browser_process l")
  case None
  then have "l\<lparr>browser_process := None\<rparr> = l"
    by simp
  with None show ?thesis
    by (simp add: cleanup_def)
next
  case (Some p)
  then show ?thesis
    by (simp add: cleanup_def split: prod.splits sum.splits)
qed

lemma cleanup_never_launched:
  "cleanup (l\<lparr>browser_process := None\<rparr>) w = (Inr (), l\<lparr>browser_process := None\<rparr>, w)"
  by (simp add: cleanup_def)

lemma cleanup_exited:
  "cleanup l (w\<lparr>poll_result := Some rc\<rparr>)
     = (Inr (), l\<lparr>browser_process := None\<rparr>, w\<lparr>poll_result := Some rc\<rparr>)"
proof (cases "browser_process l")
  case None
  then have "l\<lparr>browser_process := None\<rparr> = l"
    by simp
  with None show ?thesis
    by (simp add: cleanup_def)
next
  case (Some p)
  then show ?thesis
    by (simp add: cleanup_def)
qed

lemma cleanup_posix_can_raise:
  "cleanup_posix \<lparr>pid = 4242\<rparr> w_stubborn
     = (Inl TimeoutExpired,
        w_stubborn\<lparr>calls := [Killpg 4242 SIGTERM, Wait, Killpg 4242 SIGKILL, Wait]\<rparr>) \<and>
   cleanup linux_launcher w_stubborn
     = (Inr (), linux_launcher\<lparr>browser_process := None\<rparr>,
        w_stubborn\<lparr>calls := [Killpg 4242 SIGTERM, Wait, Killpg 4242 SIGKILL, Wait]\<rparr>)"
  by (simp add: cleanup_def cleanup_posix_def process_wait_def os_do_def w_stubborn_def
      linux_launcher_def ascii_def)

text \<open>
  C8: from every state of the launcher and whatever the operating system does,
  \<open>cleanup\<close> returns without an exception and leaves \<open>browser_process\<close> empty; a second
  \<open>cleanup\<close> right after it returns at once and changes nothing; and \<open>cleanup\<close> makes no
  call to the operating system when the process has already exited or no process was
  ever launched.
\<close>

theorem cleanup_twice:
  "fst (cleanup l w) = Inr () \<and>
   browser_process (fst (snd (cleanup l w))) = None \<and>
   cleanup (fst (snd (cleanup l w))) w2 = (Inr (), fst (snd (cleanup l w)), w2) \<and>
   cleanup l (w\<lparr>poll_result := Some rc\<rparr>)
     = (Inr (), l\<lparr>browser_process := None\<rparr>, w\<lparr>poll_result := Some rc\<rparr>) \<and>
   cleanup (l\<lparr>browser_process := None\<rparr>) w = (Inr (), l\<lparr>browser_process := None\<rparr>, w)"
proof -
  obtain w1 where c: "cleanup l w = (Inr (), l\<lparr>browser_process := None\<rparr>, w1)"
    using cleanup_returns by blast
  then show ?thesis
    by (simp add: cleanup_never_launched cleanup_exited)
qed

section \<open>async_file_writer.py: the JSON target\<close>

text \<open>
  The target file is \<open>None\<close> when it does not exist, else the list of its bytes. The
  file is opened as text with \<open>encoding='utf-8'\<close>, so what the code reads and writes
  passes through Python's UTF-8 codec and its newline translation, modelled next.
\<close>

text \<open>A continuation byte of UTF-8.\<close>

definition continuation :: "nat \<Rightarrow> bool" where
  "continuation b \<longleftrightarrow> 128 \<le> b \<and> b \<le> 191"

text \<open>
  The strict UTF-8 decoder: one to four bytes for a code point, no overlong form, no
  surrogate (U+D800 to U+DFFF), nothing above U+10FFFF; \<open>UnicodeDecodeError\<close> for
  every other byte sequence, a sequence that ends too early among them.
\<close>

fun utf8_decode :: "nat list \<Rightarrow> exn + ustr" where
  "utf8_decode [] = Inr []"
| "utf8_decode (b # bs) =
     (if b < 128 then
        (case utf8_decode bs of Inl e \<Rightarrow> Inl e | Inr t \<Rightarrow> Inr (b # t))
      else if 194 \<le> b \<and> b \<le> 223 then
        (case bs of
           c1 # r \<Rightarrow>
             if continuation c1 then
               (case utf8_decode r of
                  Inl e \<Rightarrow> Inl e
                | Inr t \<Rightarrow> Inr (((b - 192) * 64 + (c1 - 128)) # t))
             else Inl UnicodeDecodeError
         | _ \<Rightarrow> Inl UnicodeDecodeError)
      else if 224 \<le> b \<and> b \<le> 239 then
        (case bs of
           c1 # c2 # r \<Rightarrow>
             if (if b = 224 then 160 else 128) \<le> c1 \<and> c1 \<le> (if b = 237 then 159 else 191) \<and>
                continuation c2 then
               (case utf8_decode r of
                  Inl e \<Rightarrow> Inl e
                | Inr t \<Rightarrow> Inr ((((b - 224) * 64 + (c1 - 128)) * 64 + (c2 - 128)) # t))
             else Inl UnicodeDecodeError
         | _ \<Rightarrow> Inl UnicodeDecodeError)
      else if 240 \<le> b \<and> b \<le> 244 then
        (case bs of
           c1 # c2 # c3 # r \<Rightarrow>
             if (if b = 240 then 144 else 128) \<le> c1 \<and> c1 \<le> (if b = 244 then 143 else 191) \<and>
                continuation c2 \<and> continuation c3 then
               (case utf8_decode r of
                  Inl e \<Rightarrow> Inl e
                | Inr t \<Rightarrow>
                    Inr (((((b - 240) * 64 + (c1 - 128)) * 64 + (c2 - 128)) * 64 + (c3 - 128)) # t))
             else Inl UnicodeDecodeError
         | _ \<Rightarrow> Inl UnicodeDecodeError)
      else Inl UnicodeDecodeError)"

text \<open>
  The strict UTF-8 encoder: \<open>UnicodeEncodeError\<close> for a surrogate (and for a number that
  is no code point at all).
\<close>

definition utf8_encode_char :: "nat \<Rightarrow> exn + nat list" where
  "utf8_encode_char c =
     (if c < 128 then Inr [c]
      else if c < 2048 then Inr [192 + c div 64, 128 + c mod 64]
      else if 55296 \<le> c \<and> c \<le> 57343 then Inl UnicodeEncodeError
      else if c < 65536 then Inr [224 + c div 4096, 128 + c div 64 mod 64, 128 + c mod 64]
      else if c < 1114112 then
        Inr [240 + c div 262144, 128 + c div 4096 mod 64, 128 + c div 64 mod 64, 128 + c mod 64]
      else Inl UnicodeEncodeError)"

fun utf8_encode :: "ustr \<Rightarrow> exn + nat list" where
  "utf8_encode [] = Inr []"
| "utf8_encode (c # cs) =
     (case utf8_encode_char c of
        Inl e \<Rightarrow> Inl e
      | Inr bs \<Rightarrow> (case utf8_encode cs of Inl e \<Rightarrow> Inl e | Inr rest \<Rightarrow> Inr (bs @ rest)))"

text \<open>
  Reading text with the default \<open>newline=None\<close> turns \<open>\r\n\<close> and \<open>\r\<close> into \<open>\n\<close>
  (code points 13 and 10).
\<close>

fun universal_newlines :: "ustr \<Rightarrow> ustr" where
  "universal_newlines [] = []"
| "universal_newlines [c] = [if c = 13 then 10 else c]"
| "universal_newlines (c # d # cs) =
     (if c = 13 \<and> d = 10 then 10 # universal_newlines cs
      else if c = 13 then 10 # universal_newlines (d # cs)
      else c # universal_newlines (d # cs))"

text \<open>\<open>await f.read()\<close> on the file opened with \<open>'r', encoding='utf-8'\<close>.\<close>

definition read_text :: "nat list \<Rightarrow> exn + ustr" where
  "read_text bytes =
     (case utf8_decode bytes of Inl e \<Rightarrow> Inl e | Inr t \<Rightarrow> Inr (universal_newlines t))"

text \<open>
  What \<open>await f.write(t)\<close> puts into the file opened with \<open>'w', encoding='utf-8'\<close>: every
  \<open>\n\<close> becomes \<open>os.linesep\<close>, the parameter \<open>linesep\<close>, and the text is encoded.
\<close>

definition write_text :: "ustr \<Rightarrow> ustr \<Rightarrow> exn + nat list" where
  "write_text linesep t = utf8_encode (concat (map (\<lambda>c. if c = 10 then linesep else [c]) t))"

text \<open>
  \<open>json.loads\<close> and \<open>json.dumps(..., ensure_ascii=False, indent=4)\<close> are the parameters
  \<open>json_loads\<close> and \<open>json_dumps\<close>; \<open>json_loads\<close> gives the parsed value or the exception
  it raises, \<open>JSONDecodeError\<close> for a text that is not JSON. The lock is not modelled:
  this is one call, run alone.

  The first part of \<open>write_single_item_to_json\<close>, which leaves \<open>existing_data\<close>. The
  \<open>try\<close> holds the read and the parse, and catches \<open>json.JSONDecodeError\<close> only.
\<close>

definition read_existing_data ::
  "(ustr \<Rightarrow> exn + json) \<Rightarrow> nat list option \<Rightarrow> exn + json list" where
  "read_existing_data json_loads file =
     (case file of
        None \<Rightarrow> Inr []
      | Some bytes \<Rightarrow>
          if \<not> length bytes > 0 then Inr []
          else
            (case (case read_text bytes of
                     Inl e \<Rightarrow> Inl e
                   | Inr content \<Rightarrow>
                       (case (if content \<noteq> [] then json_loads content else Inr (JList [])) of
                          Inl e \<Rightarrow> Inl e
                        | Inr existing_data \<Rightarrow>
                            (case existing_data of
                               JList xs \<Rightarrow> Inr xs
                             | _ \<Rightarrow> Inr [existing_data]))) of
               Inl e \<Rightarrow> if e = JSONDecodeError then Inr [] else Inl e
             | Inr existing_data \<Rightarrow> Inr existing_data))"

text \<open>
  The whole of it. Opening with \<open>'w'\<close> empties the file before anything is written, so
  an exception of the write leaves it empty.
\<close>

definition write_single_item_to_json ::
  "(ustr \<Rightarrow> exn + json) \<Rightarrow> (json \<Rightarrow> ustr) \<Rightarrow> ustr \<Rightarrow> json \<Rightarrow> nat list option
     \<Rightarrow> (exn + unit) \<times> nat list option" where
  "write_single_item_to_json json_loads json_dumps linesep item file =
     (case read_existing_data json_loads file of
        Inl e \<Rightarrow> (Inl e, file)
      | Inr existing_data \<Rightarrow>
          (case write_text linesep (json_dumps (JList (existing_data @ [item]))) of
             Inl e \<Rightarrow> (Inl e, Some [])
           | Inr out \<Rightarrow> (Inr (), Some out)))"


text \<open>
  A file that was cut in the middle of a three-byte character (the first two bytes of
  U+5C0F), a file that was cut inside ASCII text (its bytes are its code points), and
  a new record.
\<close>

definition cut_in_character :: "nat list" where
  \<open>cut_in_character = ascii ''[{"title": "'' @ [229, 176]\<close>

definition cut_in_text :: "nat list" where
  \<open>cut_in_text = ascii ''[{"note_id": "1"}, {"note_''\<close>

definition new_item :: json where
  "new_item = JDict [(ascii ''note_id'', JStr (ascii ''3''))]"

text \<open>
  What \<open>json.dumps([new_item], ensure_ascii=False, indent=4)\<close> gives, and stand-ins for
  the parser and the serialiser where they are not reached or meet only this one value.
\<close>

definition dump_of_new_item :: ustr where
  \<open>dump_of_new_item =
     ascii ''['' @ [10] @ ascii ''    {'' @ [10] @ ascii ''        "note_id": "3"'' @ [10] @
     ascii ''    }'' @ [10] @ ascii '']''\<close>

definition rejects_all :: "ustr \<Rightarrow> exn + json" where
  "rejects_all t = Inl JSONDecodeError"

definition dumps_new_item :: "json \<Rightarrow> ustr" where
  "dumps_new_item v = dump_of_new_item"

subsection \<open>Text that is plain ASCII\<close>

lemma utf8_decode_ascii: "\<forall>b \<in> set bs. b < 128 \<Longrightarrow> utf8_decode bs = Inr bs"
  by (induction bs) simp_all

lemma utf8_encode_ascii: "\<forall>c \<in> set t. c < 128 \<Longrightarrow> utf8_encode t = Inr t"
  by (induction t) (simp_all add: utf8_encode_char_def)

lemma utf8_decode_append_ascii:
  "\<forall>b \<in> set bs. b < 128 \<Longrightarrow>
   utf8_decode (bs @ rest) = (case utf8_decode rest of Inl e \<Rightarrow> Inl e | Inr t \<Rightarrow> Inr (bs @ t))"
  by (induction bs) (simp_all split: sum.splits)

lemma universal_newlines_none: "13 \<notin> set t \<Longrightarrow> universal_newlines t = t"
  by (induction t rule: universal_newlines.induct) simp_all

subsection \<open>What the read lets through\<close>

lemma read_existing_data_undecodable:
  "utf8_decode bytes = Inl UnicodeDecodeError \<Longrightarrow>
   read_existing_data json_loads (Some bytes) = Inl UnicodeDecodeError"
  by (cases bytes) (simp_all add: read_existing_data_def read_text_def)

lemma write_single_item_undecodable:
  "utf8_decode bytes = Inl UnicodeDecodeError \<Longrightarrow>
   write_single_item_to_json json_loads json_dumps linesep item (Some bytes)
     = (Inl UnicodeDecodeError, Some bytes)"
  by (simp add: write_single_item_to_json_def read_existing_data_undecodable)

lemma write_single_item_other_exception:
  "read_text bytes = Inr content \<Longrightarrow> content \<noteq> [] \<Longrightarrow> json_loads content = Inl e \<Longrightarrow>
   e \<noteq> JSONDecodeError \<Longrightarrow>
   write_single_item_to_json json_loads json_dumps linesep item (Some bytes) = (Inl e, Some bytes)"
  by (cases bytes)
    (simp_all add: write_single_item_to_json_def read_existing_data_def read_text_def)

lemma read_existing_data_invalid:
  assumes "read_text bytes = Inr content" and "json_loads content = Inl JSONDecodeError"
  shows "read_existing_data json_loads (Some bytes) = Inr []"
  using assms by (simp add: read_existing_data_def)

text \<open>For comparison, a target that holds a JSON list keeps its records.\<close>

lemma write_single_item_appends:
  "read_text bytes = Inr content \<Longrightarrow> content \<noteq> [] \<Longrightarrow> json_loads content = Inr (JList xs) \<Longrightarrow>
   write_single_item_to_json json_loads json_dumps linesep item (Some bytes)
     = (case write_text linesep (json_dumps (JList (xs @ [item]))) of
          Inl e \<Rightarrow> (Inl e, Some [])
        | Inr out \<Rightarrow> (Inr (), Some out))"
  by (cases bytes)
    (simp_all add: write_single_item_to_json_def read_existing_data_def read_text_def)

lemma cut_in_character_undecodable: "utf8_decode cut_in_character = Inl UnicodeDecodeError"
proof -
  have \<open>\<forall>b \<in> set (ascii ''[{"title": "''). b < 128\<close>
    by (simp add: ascii_def)
  then show ?thesis
    by (simp add: cut_in_character_def utf8_decode_append_ascii)
qed


lemma write_single_item_unencodable:
  assumes "read_text bytes = Inr content" and "json_loads content = Inl JSONDecodeError"
    and "write_text linesep (json_dumps (JList [item])) = Inl e"
  shows "write_single_item_to_json json_loads json_dumps linesep item (Some bytes)
           = (Inl e, Some [])"
  using assms by (simp add: write_single_item_to_json_def read_existing_data_invalid)

lemma cut_in_text_read: "read_text cut_in_text = Inr cut_in_text"
proof -
  have a: "\<forall>b \<in> set cut_in_text. b < 128" and r: "13 \<notin> set cut_in_text"
    by (simp_all add: cut_in_text_def ascii_def)
  from a have "utf8_decode cut_in_text = Inr cut_in_text"
    by (rule utf8_decode_ascii)
  with r show ?thesis
    by (simp add: read_text_def universal_newlines_none)
qed

lemma dump_of_new_item_written: "write_text [10] dump_of_new_item = Inr dump_of_new_item"
proof -
  have "concat (map (\<lambda>c. if c = 10 then [10] else [c]) t) = t" for t :: ustr
    by (induction t) simp_all
  moreover have "\<forall>c \<in> set dump_of_new_item. c < 128"
    by (simp add: dump_of_new_item_def ascii_def)
  ultimately show ?thesis
    by (simp add: write_text_def utf8_encode_ascii)
qed

text \<open>
  C10, as the code has it. When the target exists and holds UTF-8 text on which
  \<open>json.loads\<close> raises \<open>JSONDecodeError\<close>, and the dump of the one-element list that
  holds the new record can be encoded, \<open>write_single_item_to_json\<close> raises nothing and
  leaves that dump as the whole file; what the file held is gone.
\<close>

theorem write_single_item_discards_invalid:
  assumes "file = Some bytes" and "read_text bytes = Inr content"
    and "json_loads content = Inl JSONDecodeError"
    and "write_text linesep (json_dumps (JList [item])) = Inr out"
  shows "write_single_item_to_json json_loads json_dumps linesep item file = (Inr (), Some out)"
  using assms by (simp add: write_single_item_to_json_def read_existing_data_invalid)

theorem write_single_item_discards_invalid_witness:
  "write_single_item_to_json rejects_all dumps_new_item [10] new_item (Some cut_in_text)
     = (Inr (), Some dump_of_new_item)"
proof -
  have "rejects_all cut_in_text = Inl JSONDecodeError"
    by (simp add: rejects_all_def)
  moreover have "write_text [10] (dumps_new_item (JList [new_item])) = Inr dump_of_new_item"
    by (simp add: dumps_new_item_def dump_of_new_item_written)
  ultimately show ?thesis
    using cut_in_text_read
    by (intro write_single_item_discards_invalid [where bytes = cut_in_text]) simp_all
qed

text \<open>
  The claim as written fails for a file that is not UTF-8, such as one cut in the middle
  of a character: it is not valid JSON, yet the read raises \<open>UnicodeDecodeError\<close>, which
  the \<open>except json.JSONDecodeError\<close> does not catch, and the file stays as it was.
\<close>

theorem write_single_item_undecodable_raises:
  "utf8_decode cut_in_character = Inl UnicodeDecodeError \<and>
   write_single_item_to_json rejects_all dumps_new_item [10] new_item (Some cut_in_character)
     = (Inl UnicodeDecodeError, Some cut_in_character)"
  by (simp add: cut_in_character_undecodable write_single_item_undecodable)

end
